theory Spec2Isabelle
  imports Main "HOL-Library.Word"
begin

section \<open>Data model of kernel/bpf/offload.c\<close>

text \<open>
  Pointers are addresses; a NULL pointer is \<open>None\<close>. Programs and devices are owned by
  other subsystems and are always addressable here; offload descriptors are allocated
  and freed by this file, so their heap maps an address to \<open>None\<close> when nothing is
  allocated there.
\<close>

type_synonym prog_ptr = nat
type_synonym dev_ptr = nat
type_synonym off_ptr = nat
type_synonym net_ptr = nat

datatype bpf_netdev_command =
  BPF_OFFLOAD_VERIFIER_PREP | BPF_OFFLOAD_TRANSLATE | BPF_OFFLOAD_DESTROY

datatype netreg_state =
  NETREG_UNINITIALIZED | NETREG_REGISTERED | NETREG_UNREGISTERING
  | NETREG_UNREGISTERED | NETREG_RELEASED | NETREG_DUMMY

text \<open>
  The driver's hook table (\<open>offload->dev_ops\<close>): one operation, \<open>insn_hook(env, insn_idx,
  prev_insn_idx)\<close>; the verifier environment is identified by its program.
\<close>

datatype bpf_prog_offload_ops = Dev_ops (insn_hook: "prog_ptr \<Rightarrow> int \<Rightarrow> int \<Rightarrow> int")

text \<open>
  The driver's command handler \<open>netdev_ops->ndo_bpf\<close>: for a command and a program it
  gives the return code and what it left in \<open>data.verifier.ops\<close> (the caller zeroes
  \<open>data\<close>, so \<open>None\<close> when the driver wrote nothing there).
\<close>

type_synonym ndo_bpf_t = "bpf_netdev_command \<Rightarrow> prog_ptr \<Rightarrow> int \<times> bpf_prog_offload_ops option"

record net_device =
  ifindex :: "32 word"
  reg_state :: netreg_state
  ndo_bpf :: "ndo_bpf_t option"
  nd_net :: net_ptr

text \<open>
  \<open>prog->bpf_func\<close> is a function pointer: either whatever the host would run, or
  \<open>bpf_prog_warn_on_exec\<close>.
\<close>

datatype bpf_func_t = BPF_FUNC_HOST nat | BPF_PROG_WARN_ON_EXEC

record bpf_prog =
  bpf_func :: bpf_func_t
  aux_offload :: "off_ptr option"
  aux_id :: "32 word"

record bpf_prog_offload =
  prog :: "prog_ptr option"
  netdev :: "dev_ptr option"
  dev_ops :: "bpf_prog_offload_ops option"
  dev_state :: bool

record bpf_attr =
  prog_flags :: "32 word"
  prog_ifindex :: "32 word"

record bpf_prog_info =
  info_ifindex :: "32 word"
  netns_dev :: "64 word"
  netns_ino :: "64 word"

datatype rwsem = Unlocked | ReadLocked | WriteLocked

datatype fault = NullDeref | UseAfterFree | DoubleFree | Deadlock | Livelock

datatype event =
    EvRtnlLock | EvRtnlUnlock
  | EvDownWrite | EvUpWrite | EvDownRead | EvUpRead
  | EvKzalloc off_ptr | EvKfree off_ptr
  | EvDevHold dev_ptr | EvDevPut dev_ptr
  | EvRegStateCheck dev_ptr
  | EvListAdd off_ptr | EvListDel off_ptr
  | EvNdo dev_ptr bpf_netdev_command prog_ptr int
  | EvInsnHook prog_ptr int int
  | EvHostExec prog_ptr
  | EvFreeId prog_ptr
  | EvGetNet net_ptr
  | EvPathPut
  | EvWarn string

text \<open>
  The state: the programs, the devices, the device table of the caller's namespace, the
  descriptor heap, the list \<open>bpf_prog_offload_devs\<close>, the two locks as the running thread
  holds them, and the log of what was done to the rest of the kernel, oldest first.
\<close>

record state =
  progs :: "prog_ptr \<Rightarrow> bpf_prog"
  netdevs :: "dev_ptr \<Rightarrow> net_device"
  dev_by_index :: "32 word \<Rightarrow> dev_ptr option"
  offloads :: "off_ptr \<Rightarrow> bpf_prog_offload option"
  bpf_prog_offload_devs :: "off_ptr list"
  rtnl_held :: bool
  bpf_devs_lock :: rwsem
  trace :: "event list"

text \<open>
  Modelled from the spec: the error codes and the notifier constants, which the headers
  outside this file declare. \<open>PermissionDenied\<close> is \<open>-EPERM\<close>, \<open>OutOfMemory\<close> is
  \<open>-ENOMEM\<close>, \<open>NoDevice\<close> is \<open>-ENODEV\<close>, \<open>InvalidArgument\<close> is \<open>-EINVAL\<close>,
  \<open>Unsupported\<close> is \<open>-EOPNOTSUPP\<close>.
\<close>

definition EPERM :: int where "EPERM = 1"
definition ENOMEM :: int where "ENOMEM = 12"
definition ENODEV :: int where "ENODEV = 19"
definition EINVAL :: int where "EINVAL = 22"
definition EOPNOTSUPP :: int where "EOPNOTSUPP = 95"
definition NOTIFY_OK :: int where "NOTIFY_OK = 1"
definition NETDEV_UNREGISTER :: "64 word" where "NETDEV_UNREGISTER = 6"

section \<open>Kernel services used by the file\<close>

definition bind_f :: "fault + 'a \<Rightarrow> ('a \<Rightarrow> fault + 'b) \<Rightarrow> fault + 'b" where
  "bind_f m k = (case m of Inl f \<Rightarrow> Inl f | Inr x \<Rightarrow> k x)"

definition emit :: "event \<Rightarrow> state \<Rightarrow> state" where
  "emit e s = s\<lparr>trace := trace s @ [e]\<rparr>"

text \<open>
  Modelled from the spec: the topology lock (\<open>rtnl_lock\<close>, \<open>rtnl_unlock\<close>, \<open>ASSERT_RTNL\<close>
  of linux/rtnetlink.h), a single global lock. Taking it again in the thread that holds it
  never returns. \<open>ASSERT_RTNL\<close> warns when the lock is not held and goes on.
\<close>

definition rtnl_lock :: "state \<Rightarrow> fault + state" where
  "rtnl_lock s = (if rtnl_held s then Inl Deadlock
                  else Inr (emit EvRtnlLock (s\<lparr>rtnl_held := True\<rparr>)))"

definition rtnl_unlock :: "state \<Rightarrow> state" where
  "rtnl_unlock s = emit EvRtnlUnlock (s\<lparr>rtnl_held := False\<rparr>)"

definition ASSERT_RTNL :: "state \<Rightarrow> state" where
  "ASSERT_RTNL s = (if rtnl_held s then s else emit (EvWarn ''RTNL: assertion failed'') s)"

text \<open>
  Modelled from the spec: the registry lock \<open>bpf_devs_lock\<close>, a reader/writer semaphore
  (linux/rwsem.h). The thread that holds it cannot take it again.
\<close>

definition down_write :: "state \<Rightarrow> fault + state" where
  "down_write s = (if bpf_devs_lock s \<noteq> Unlocked then Inl Deadlock
                   else Inr (emit EvDownWrite (s\<lparr>bpf_devs_lock := WriteLocked\<rparr>)))"

definition up_write :: "state \<Rightarrow> state" where
  "up_write s = emit EvUpWrite (s\<lparr>bpf_devs_lock := Unlocked\<rparr>)"

definition down_read :: "state \<Rightarrow> fault + state" where
  "down_read s = (if bpf_devs_lock s \<noteq> Unlocked then Inl Deadlock
                  else Inr (emit EvDownRead (s\<lparr>bpf_devs_lock := ReadLocked\<rparr>)))"

definition up_read :: "state \<Rightarrow> state" where
  "up_read s = emit EvUpRead (s\<lparr>bpf_devs_lock := Unlocked\<rparr>)"

text \<open>
  Modelled from the spec: descriptor allocation (\<open>kzalloc\<close>, \<open>kfree\<close> of linux/slab.h).
  \<open>kzalloc\<close> is given the address the allocator chose and zeroes the object there;
  \<open>kfree\<close> of NULL does nothing, \<open>kfree\<close> of an address that holds no object is a fault.
\<close>

definition zero_offload :: bpf_prog_offload where
  "zero_offload = \<lparr>prog = None, netdev = None, dev_ops = None, dev_state = False\<rparr>"

definition kzalloc :: "off_ptr \<Rightarrow> state \<Rightarrow> state" where
  "kzalloc p s = emit (EvKzalloc p) (s\<lparr>offloads := (offloads s)(p \<mapsto> zero_offload)\<rparr>)"

definition kfree :: "off_ptr option \<Rightarrow> state \<Rightarrow> fault + state" where
  "kfree po s =
     (case po of
        None \<Rightarrow> Inr s
      | Some p \<Rightarrow>
          (case offloads s p of
             None \<Rightarrow> Inl DoubleFree
           | Some _ \<Rightarrow> Inr (emit (EvKfree p) (s\<lparr>offloads := (offloads s)(p := None)\<rparr>))))"

text \<open>Reading through a descriptor pointer, and writing the fields of a descriptor.\<close>

definition load_offload :: "off_ptr option \<Rightarrow> state \<Rightarrow> fault + off_ptr \<times> bpf_prog_offload" where
  "load_offload po s =
     (case po of
        None \<Rightarrow> Inl NullDeref
      | Some p \<Rightarrow> (case offloads s p of None \<Rightarrow> Inl UseAfterFree | Some off \<Rightarrow> Inr (p, off)))"

definition upd_offload :: "off_ptr \<Rightarrow> (bpf_prog_offload \<Rightarrow> bpf_prog_offload) \<Rightarrow> state \<Rightarrow> state" where
  "upd_offload p f s = s\<lparr>offloads := (offloads s)(p := map_option f (offloads s p))\<rparr>"

text \<open>
  Modelled from the spec: device lookup and reference counting (\<open>dev_get_by_index\<close>,
  \<open>dev_put\<close> of linux/netdevice.h). The lookup takes a reference on the device it finds.
\<close>

definition dev_get_by_index :: "32 word \<Rightarrow> state \<Rightarrow> dev_ptr option \<times> state" where
  "dev_get_by_index idx s =
     (case dev_by_index s idx of None \<Rightarrow> (None, s) | Some d \<Rightarrow> (Some d, emit (EvDevHold d) s))"

definition dev_put :: "dev_ptr \<Rightarrow> state \<Rightarrow> state" where
  "dev_put d s = emit (EvDevPut d) s"

text \<open>
  Modelled from the spec: the intrusive list of linux/list.h. A node is on the list at
  most once; \<open>list_del_init\<close> leaves the node on no list and does nothing to a node that
  is on none.
\<close>

definition list_add_tail :: "off_ptr \<Rightarrow> state \<Rightarrow> state" where
  "list_add_tail p s = emit (EvListAdd p) (s\<lparr>bpf_prog_offload_devs := bpf_prog_offload_devs s @ [p]\<rparr>)"

definition list_del_init :: "off_ptr \<Rightarrow> state \<Rightarrow> state" where
  "list_del_init p s =
     emit (EvListDel p) (s\<lparr>bpf_prog_offload_devs := removeAll p (bpf_prog_offload_devs s)\<rparr>)"

text \<open>
  Modelled from the spec: \<open>bpf_prog_free_id\<close> (kernel/bpf/syscall.c) invalidates the
  program's externally visible identifier, so that lookups by identifier no longer find it.
\<close>

definition bpf_prog_free_id :: "prog_ptr \<Rightarrow> state \<Rightarrow> state" where
  "bpf_prog_free_id pg s =
     emit (EvFreeId pg) (s\<lparr>progs := (progs s)(pg := (progs s pg)\<lparr>aux_id := 0\<rparr>)\<rparr>)"

text \<open>Modelled from the spec: \<open>WARN\<close> and \<open>WARN_ON\<close> (linux/bug.h) log when the condition holds.\<close>

definition WARN :: "bool \<Rightarrow> string \<Rightarrow> state \<Rightarrow> state" where
  "WARN c msg s = (if c then emit (EvWarn msg) s else s)"

definition WARN_ON :: "bool \<Rightarrow> state \<Rightarrow> state" where
  "WARN_ON c s = WARN c ''WARN_ON'' s"

section \<open>The functions of kernel/bpf/offload.c\<close>

definition bpf_dev_offload_check :: "dev_ptr option \<Rightarrow> state \<Rightarrow> int" where
  "bpf_dev_offload_check nd s =
     (case nd of
        None \<Rightarrow> - EINVAL
      | Some d \<Rightarrow> (if ndo_bpf (netdevs s d) = None then - EOPNOTSUPP else 0))"

text \<open>The exit path \<open>err_maybe_put\<close> of \<open>bpf_prog_offload_init\<close>.\<close>

definition err_maybe_put :: "off_ptr \<Rightarrow> int \<Rightarrow> state \<Rightarrow> fault + int \<times> state" where
  "err_maybe_put p err s =
     bind_f (load_offload (Some p) s) (\<lambda>(_, off).
     bind_f (kfree (Some p) (case netdev off of None \<Rightarrow> s | Some d \<Rightarrow> dev_put d s)) (\<lambda>s'.
     Inr (err, s')))"

text \<open>
  \<open>bpf_prog_offload_init\<close>. The result of \<open>capable(CAP_SYS_ADMIN)\<close> and the address
  \<open>kzalloc\<close> returns (\<open>None\<close> when it fails) are inputs.
\<close>

definition bpf_prog_offload_init ::
    "bool \<Rightarrow> off_ptr option \<Rightarrow> prog_ptr \<Rightarrow> bpf_attr \<Rightarrow> state \<Rightarrow> fault + int \<times> state" where
  "bpf_prog_offload_init capable_admin alloc pg attr s =
     (if \<not> capable_admin then Inr (- EPERM, s)
      else if prog_flags attr \<noteq> 0 then Inr (- EINVAL, s)
      else case alloc of
        None \<Rightarrow> Inr (- ENOMEM, s)
      | Some p \<Rightarrow>
          (let s1 = upd_offload p (\<lambda>off. off\<lparr>prog := Some pg\<rparr>) (kzalloc p s);
               (nd, s2) = dev_get_by_index (prog_ifindex attr) s1;
               s3 = upd_offload p (\<lambda>off. off\<lparr>netdev := nd\<rparr>) s2;
               err = bpf_dev_offload_check nd s3
           in if err \<noteq> 0 then err_maybe_put p err s3
              else
                bind_f (down_write s3) (\<lambda>s4.
                  case nd of
                    None \<Rightarrow> Inl NullDeref
                  | Some d \<Rightarrow>
                      (let s5 = emit (EvRegStateCheck d) s4
                       in if reg_state (netdevs s5 d) \<noteq> NETREG_REGISTERED
                          then err_maybe_put p (- EINVAL) (up_write s5)
                          else
                            (let s6 = s5\<lparr>progs := (progs s5)(pg := (progs s5 pg)\<lparr>aux_offload := Some p\<rparr>)\<rparr>;
                                 s7 = list_add_tail p s6;
                                 s8 = dev_put d s7
                             in Inr (0, up_write s8))))))"

text \<open>
  \<open>__bpf_offload_ndo\<close>; the prefix \<open>uu_\<close> stands for the two leading underscores of the
  source's name, here and in \<open>uu_bpf_prog_offload_destroy\<close>.
\<close>

definition uu_bpf_offload_ndo ::
    "prog_ptr \<Rightarrow> bpf_netdev_command \<Rightarrow> state
       \<Rightarrow> fault + (int \<times> bpf_prog_offload_ops option) \<times> state" where
  "uu_bpf_offload_ndo pg cmd s =
     bind_f (load_offload (aux_offload (progs s pg)) s) (\<lambda>(_, off).
       (let s1 = ASSERT_RTNL s
        in case netdev off of
             None \<Rightarrow> Inr ((- ENODEV, None), s1)
           | Some d \<Rightarrow>
               (case ndo_bpf (netdevs s1 d) of
                  None \<Rightarrow> Inl NullDeref
                | Some h \<Rightarrow> Inr (h cmd pg, emit (EvNdo d cmd pg (fst (h cmd pg))) s1))))"

definition bpf_prog_offload_verifier_prep :: "prog_ptr \<Rightarrow> state \<Rightarrow> fault + int \<times> state" where
  "bpf_prog_offload_verifier_prep pg s =
     bind_f (rtnl_lock s) (\<lambda>s1.
     bind_f (uu_bpf_offload_ndo pg BPF_OFFLOAD_VERIFIER_PREP s1) (\<lambda>((err, ops), s2).
       if err \<noteq> 0 then Inr (err, rtnl_unlock s2)
       else
         bind_f (load_offload (aux_offload (progs s2 pg)) s2) (\<lambda>(p, _).
           (let s3 = upd_offload p (\<lambda>off. off\<lparr>dev_ops := ops\<rparr>) s2;
                s4 = upd_offload p (\<lambda>off. off\<lparr>dev_state := True\<rparr>) s3
            in Inr (err, rtnl_unlock s4)))))"

definition bpf_prog_offload_verify_insn ::
    "prog_ptr \<Rightarrow> int \<Rightarrow> int \<Rightarrow> state \<Rightarrow> fault + int \<times> state" where
  "bpf_prog_offload_verify_insn pg insn_idx prev_insn_idx s =
     bind_f (down_read s) (\<lambda>s1.
     bind_f (load_offload (aux_offload (progs s1 pg)) s1) (\<lambda>(_, off).
       case netdev off of
         None \<Rightarrow> Inr (- ENODEV, up_read s1)
       | Some _ \<Rightarrow>
           (case dev_ops off of
              None \<Rightarrow> Inl NullDeref
            | Some ops \<Rightarrow>
                Inr (insn_hook ops pg insn_idx prev_insn_idx,
                     up_read (emit (EvInsnHook pg insn_idx prev_insn_idx) s1)))))"

definition uu_bpf_prog_offload_destroy :: "prog_ptr \<Rightarrow> state \<Rightarrow> fault + state" where
  "uu_bpf_prog_offload_destroy pg s =
     bind_f (load_offload (aux_offload (progs s pg)) s) (\<lambda>(p, off).
     bind_f (if dev_state off
             then bind_f (uu_bpf_offload_ndo pg BPF_OFFLOAD_DESTROY s) (\<lambda>((ret, _), s').
                    Inr (WARN_ON (ret \<noteq> 0) s'))
             else Inr s) (\<lambda>s1.
       (let s2 = bpf_prog_free_id pg s1;
            s3 = upd_offload p (\<lambda>off. off\<lparr>dev_state := False\<rparr>) s2;
            s4 = list_del_init p s3
        in Inr (upd_offload p (\<lambda>off. off\<lparr>netdev := None\<rparr>) s4))))"

definition bpf_prog_offload_destroy :: "prog_ptr \<Rightarrow> state \<Rightarrow> fault + state" where
  "bpf_prog_offload_destroy pg s =
     (let offload = aux_offload (progs s pg)
      in bind_f (rtnl_lock s) (\<lambda>s1.
         bind_f (down_write s1) (\<lambda>s2.
         bind_f (uu_bpf_prog_offload_destroy pg s2) (\<lambda>s3.
           kfree offload (rtnl_unlock (up_write s3))))))"

definition bpf_prog_offload_translate :: "prog_ptr \<Rightarrow> state \<Rightarrow> fault + int \<times> state" where
  "bpf_prog_offload_translate pg s =
     bind_f (rtnl_lock s) (\<lambda>s1.
     bind_f (uu_bpf_offload_ndo pg BPF_OFFLOAD_TRANSLATE s1) (\<lambda>((ret, _), s2).
       Inr (ret, rtnl_unlock s2)))"

definition bpf_prog_warn_on_exec :: "state \<Rightarrow> 32 word \<times> state" where
  "bpf_prog_warn_on_exec s =
     (0, WARN True ''attempt to execute device eBPF program on the host!'' s)"

definition bpf_prog_offload_compile :: "prog_ptr \<Rightarrow> state \<Rightarrow> fault + int \<times> state" where
  "bpf_prog_offload_compile pg s =
     bpf_prog_offload_translate pg
       (s\<lparr>progs := (progs s)(pg := (progs s pg)\<lparr>bpf_func := BPF_PROG_WARN_ON_EXEC\<rparr>)\<rparr>)"

text \<open>
  Calling through \<open>prog->bpf_func\<close>: the guard runs \<open>bpf_prog_warn_on_exec\<close>; any other
  entry point is the host executing the program, logged as such.
\<close>

definition call_bpf_func :: "bpf_func_t \<Rightarrow> prog_ptr \<Rightarrow> state \<Rightarrow> 32 word \<times> state" where
  "call_bpf_func f pg s =
     (case f of
        BPF_PROG_WARN_ON_EXEC \<Rightarrow> bpf_prog_warn_on_exec s
      | BPF_FUNC_HOST n \<Rightarrow> (0, emit (EvHostExec pg) s))"

text \<open>
  Modelled from the spec: namespace path resolution (\<open>ns_get_path_cb\<close> of fs/nsfs.c,
  \<open>new_encode_dev\<close> of linux/kdev_t.h), an external collaborator. It asks the callback
  for the namespace; with no namespace the resolution fails, with the error pointer
  \<open>ns_null_err\<close>; otherwise \<open>ns_path\<close> gives either an error pointer (\<open>Inl\<close> of what
  \<open>PTR_ERR\<close> reads from it) or the \<open>s_dev\<close> and \<open>i_ino\<close> of the namespace's inode.
\<close>

record nsfs =
  ns_null_err :: int
  ns_path :: "net_ptr \<Rightarrow> int + 32 word \<times> 64 word"
  new_encode_dev :: "32 word \<Rightarrow> 32 word"

definition ns_get_path_cb ::
    "nsfs \<Rightarrow> (state \<Rightarrow> fault + (net_ptr option \<times> 'a) \<times> state) \<Rightarrow> state
       \<Rightarrow> fault + ((int + 32 word \<times> 64 word) \<times> 'a) \<times> state" where
  "ns_get_path_cb fs cb s =
     bind_f (cb s) (\<lambda>((ns, a), s1).
       case ns of
         None \<Rightarrow> Inr ((Inl (ns_null_err fs), a), s1)
       | Some n \<Rightarrow> Inr ((ns_path fs n, a), s1))"

text \<open>
  \<open>bpf_prog_offload_info_fill_ns\<close>: the callback; \<open>args->info\<close> is passed in and handed
  back with the namespace.
\<close>

definition bpf_prog_offload_info_fill_ns ::
    "prog_ptr \<Rightarrow> bpf_prog_info \<Rightarrow> state \<Rightarrow> fault + (net_ptr option \<times> bpf_prog_info) \<times> state" where
  "bpf_prog_offload_info_fill_ns pg info s =
     bind_f (rtnl_lock s) (\<lambda>s1.
     bind_f (down_read s1) (\<lambda>s2.
     bind_f (case aux_offload (progs s2 pg) of
               None \<Rightarrow> Inr ((None, info\<lparr>info_ifindex := 0\<rparr>), s2)
             | Some p \<Rightarrow>
                 bind_f (load_offload (Some p) s2) (\<lambda>(_, off).
                   case netdev off of
                     None \<Rightarrow> Inl NullDeref
                   | Some d \<Rightarrow>
                       (let net = nd_net (netdevs s2 d)
                        in Inr ((Some net, info\<lparr>info_ifindex := ifindex (netdevs s2 d)\<rparr>),
                                emit (EvGetNet net) s2)))) (\<lambda>(r, s3).
       Inr (r, rtnl_unlock (up_read s3)))))"

definition bpf_prog_offload_info_fill ::
    "nsfs \<Rightarrow> bpf_prog_info \<Rightarrow> prog_ptr \<Rightarrow> state \<Rightarrow> fault + (int \<times> bpf_prog_info) \<times> state" where
  "bpf_prog_offload_info_fill fs info pg s =
     bind_f (ns_get_path_cb fs (bpf_prog_offload_info_fill_ns pg info) s) (\<lambda>((res, info1), s1).
       case res of
         Inl e \<Rightarrow>
           if info_ifindex info1 = 0 then Inr ((- ENODEV, info1), s1)
           else Inr ((e, info1), s1)
       | Inr (s_dev, i_ino) \<Rightarrow>
           Inr ((0, info1\<lparr>netns_dev := ucast (new_encode_dev fs s_dev), netns_ino := i_ino\<rparr>),
                emit EvPathPut s1))"

text \<open>
  Modelled from the spec: walking the intrusive list (\<open>list_first_entry\<close>,
  \<open>list_next_entry\<close> of linux/list.h). A position is the list head or a node. The
  successor of the head is the first node, or the head in an empty list; the successor of
  a node on the list is the node after it, or the head; a node that \<open>list_del_init\<close> took
  off the list points at itself.
\<close>

datatype list_pos = At_head | At_node off_ptr

definition pos_of :: "off_ptr list \<Rightarrow> list_pos" where
  "pos_of xs = (case xs of [] \<Rightarrow> At_head | x # _ \<Rightarrow> At_node x)"

fun list_next :: "list_pos \<Rightarrow> off_ptr list \<Rightarrow> list_pos" where
  "list_next At_head xs = pos_of xs"
| "list_next (At_node p) xs =
     (case dropWhile (\<lambda>x. x \<noteq> p) xs of [] \<Rightarrow> At_node p | _ # ys \<Rightarrow> pos_of ys)"

text \<open>The body of the loop of \<open>bpf_offload_notification\<close>, for the node \<open>offload\<close>.\<close>

definition sweep_body :: "dev_ptr \<Rightarrow> off_ptr \<Rightarrow> state \<Rightarrow> fault + state" where
  "sweep_body nd p s =
     bind_f (load_offload (Some p) s) (\<lambda>(_, off).
       if netdev off = Some nd
       then (case prog off of
               None \<Rightarrow> Inl NullDeref
             | Some pg \<Rightarrow> uu_bpf_prog_offload_destroy pg s)
       else Inr s)"

text \<open>
  The loop \<open>list_for_each_entry_safe(offload, tmp, &bpf_prog_offload_devs, offloads)\<close>:
  it stops when \<open>offload\<close> is the list head; after the body \<open>offload\<close> becomes \<open>tmp\<close> and
  \<open>tmp\<close> its successor in the list as the body left it. The body tears down the
  descriptor of \<open>offload->prog\<close>; where that is not \<open>offload\<close> itself the loop goes on all
  the same, and where it is \<open>tmp\<close> the loop never ends: then the value is \<open>None\<close>.
\<close>

partial_function (option) sweep_loop ::
    "dev_ptr \<Rightarrow> list_pos \<Rightarrow> list_pos \<Rightarrow> state \<Rightarrow> (fault + state) option" where
  "sweep_loop nd pos tmp s =
     (case pos of
        At_head \<Rightarrow> Some (Inr s)
      | At_node p \<Rightarrow>
          (case sweep_body nd p s of
             Inl f \<Rightarrow> Some (Inl f)
           | Inr s' \<Rightarrow> sweep_loop nd tmp (list_next tmp (bpf_prog_offload_devs s')) s'))"

definition offload_sweep :: "dev_ptr \<Rightarrow> state \<Rightarrow> (fault + state) option" where
  "offload_sweep nd s =
     (let pos = list_next At_head (bpf_prog_offload_devs s);
          tmp = list_next pos (bpf_prog_offload_devs s)
      in sweep_loop nd pos tmp s)"

definition bpf_offload_notification ::
    "64 word \<Rightarrow> dev_ptr \<Rightarrow> state \<Rightarrow> (fault + int \<times> state) option" where
  "bpf_offload_notification event nd s =
     (let s1 = ASSERT_RTNL s
      in if event = NETDEV_UNREGISTER
         then
           (let s2 = emit (EvRegStateCheck nd) s1
            in if reg_state (netdevs s2 nd) \<noteq> NETREG_UNREGISTERING then Some (Inr (NOTIFY_OK, s2))
               else
                 (case down_write s2 of
                    Inl f \<Rightarrow> Some (Inl f)
                  | Inr s3 \<Rightarrow>
                      map_option (\<lambda>r. bind_f r (\<lambda>s4. Inr (NOTIFY_OK, up_write s4)))
                        (offload_sweep nd s3)))
         else Some (Inr (NOTIFY_OK, s1)))"

section \<open>Operations and the state before any of them\<close>

text \<open>
  One call of an operation, with its return code dropped. An operation that does not
  return has no state after it: a fault, and \<open>Livelock\<close> for the notifier's loop when it
  never ends.
\<close>

datatype op =
    Op_init bool "off_ptr option" prog_ptr bpf_attr
  | Op_verifier_prep prog_ptr
  | Op_verify_insn prog_ptr int int
  | Op_compile prog_ptr
  | Op_destroy prog_ptr
  | Op_info_fill bpf_prog_info prog_ptr
  | Op_notification "64 word" dev_ptr

fun run_op :: "nsfs \<Rightarrow> op \<Rightarrow> state \<Rightarrow> fault + state" where
  "run_op fs (Op_init c a pg attr) s = bind_f (bpf_prog_offload_init c a pg attr s) (\<lambda>(_, s'). Inr s')"
| "run_op fs (Op_verifier_prep pg) s = bind_f (bpf_prog_offload_verifier_prep pg s) (\<lambda>(_, s'). Inr s')"
| "run_op fs (Op_verify_insn pg i j) s = bind_f (bpf_prog_offload_verify_insn pg i j s) (\<lambda>(_, s'). Inr s')"
| "run_op fs (Op_compile pg) s = bind_f (bpf_prog_offload_compile pg s) (\<lambda>(_, s'). Inr s')"
| "run_op fs (Op_destroy pg) s = bpf_prog_offload_destroy pg s"
| "run_op fs (Op_info_fill info pg) s = bind_f (bpf_prog_offload_info_fill fs info pg s) (\<lambda>(_, s'). Inr s')"
| "run_op fs (Op_notification ev nd) s =
     (case bpf_offload_notification ev nd s of
        None \<Rightarrow> Inl Livelock
      | Some r \<Rightarrow> bind_f r (\<lambda>(_, s'). Inr s'))"

text \<open>The events an operation added to the log.\<close>

definition emitted :: "state \<Rightarrow> state \<Rightarrow> event list" where
  "emitted s s' = drop (length (trace s)) (trace s')"

section \<open>Predicates and example states\<close>

text \<open>
  The registry invariant: the list holds no descriptor twice, and a descriptor is on the
  list exactly when it is allocated and its \<open>netdev\<close> is not NULL.
\<close>

definition offload_inv :: "state \<Rightarrow> bool" where
  "offload_inv s \<longleftrightarrow>
     distinct (bpf_prog_offload_devs s) \<and>
     (\<forall>p. p \<in> set (bpf_prog_offload_devs s) \<longleftrightarrow>
            (\<exists>off. offloads s p = Some off \<and> netdev off \<noteq> None))"

text \<open>What the allocator owes \<open>bpf_prog_offload_init\<close>: an address that holds no object.\<close>

fun alloc_fresh :: "op \<Rightarrow> state \<Rightarrow> bool" where
  "alloc_fresh (Op_init c (Some p) pg attr) s = (offloads s p = None)"
| "alloc_fresh _ s = True"

text \<open>
  A driver that accepts every command and installs a hook table on \<open>VERIFIER_PREP\<close>, and
  a state with that driver's devices 7 and 8 registered under interface indices 3 and 4
  and nothing offloaded.
\<close>

definition nic_ndo :: ndo_bpf_t where
  "nic_ndo cmd pg =
     (case cmd of
        BPF_OFFLOAD_VERIFIER_PREP \<Rightarrow> (0, Some (Dev_ops (\<lambda>pg i j. i + 7)))
      | _ \<Rightarrow> (0, None))"

definition boot_state :: state where
  "boot_state =
     \<lparr>progs = (\<lambda>_. \<lparr>bpf_func = BPF_FUNC_HOST 0, aux_offload = None, aux_id = 1\<rparr>),
      netdevs = (\<lambda>d. \<lparr>ifindex = of_nat d - 4, reg_state = NETREG_REGISTERED,
                       ndo_bpf = Some nic_ndo, nd_net = 0\<rparr>),
      dev_by_index = (\<lambda>i. if i = 3 then Some 7 else if i = 4 then Some 8 else None),
      offloads = (\<lambda>_. None),
      bpf_prog_offload_devs = [],
      rtnl_held = False,
      bpf_devs_lock = Unlocked,
      trace = []\<rparr>"

definition attr3 :: bpf_attr where
  "attr3 = \<lparr>prog_flags = 0, prog_ifindex = 3\<rparr>"

text \<open>
  Modelled from the spec: the device core delivering the "device fully unregistering"
  event (net/core/dev.c). Under the topology lock it marks the device as unregistering
  and calls the notifier.
\<close>

definition unregister_netdevice :: "dev_ptr \<Rightarrow> state \<Rightarrow> fault + state" where
  "unregister_netdevice d s =
     bind_f (rtnl_lock s) (\<lambda>s1.
       case bpf_offload_notification NETDEV_UNREGISTER d
              (s1\<lparr>netdevs := (netdevs s1)(d := (netdevs s1 d)\<lparr>reg_state := NETREG_UNREGISTERING\<rparr>)\<rparr>) of
         None \<Rightarrow> Inl Livelock
       | Some r \<Rightarrow> bind_f r (\<lambda>(_, s2). Inr (rtnl_unlock s2)))"

text \<open>Reading the log.\<close>

fun is_ndo :: "event \<Rightarrow> bool" where
  "is_ndo (EvNdo d c pg r) = True"
| "is_ndo _ = False"

fun is_destroy_of :: "dev_ptr \<Rightarrow> prog_ptr \<Rightarrow> event \<Rightarrow> bool" where
  "is_destroy_of nd pg (EvNdo d c q r) \<longleftrightarrow> d = nd \<and> c = BPF_OFFLOAD_DESTROY \<and> q = pg"
| "is_destroy_of nd pg _ \<longleftrightarrow> False"

fun is_check :: "event \<Rightarrow> bool" where
  "is_check (EvRegStateCheck d) = True"
| "is_check _ = False"

fun is_lock :: "event \<Rightarrow> bool" where
  "is_lock EvRtnlLock = True"
| "is_lock EvRtnlUnlock = True"
| "is_lock EvDownWrite = True"
| "is_lock EvUpWrite = True"
| "is_lock EvDownRead = True"
| "is_lock EvUpRead = True"
| "is_lock _ = False"

definition before_check :: "event list \<Rightarrow> event list" where
  "before_check evs = takeWhile (\<lambda>e. \<not> is_check e) evs"

text \<open>\<open>precedes a b xs\<close>: \<open>a\<close> is in the log and \<open>b\<close> comes after its first occurrence.\<close>

definition precedes :: "event \<Rightarrow> event \<Rightarrow> event list \<Rightarrow> bool" where
  "precedes a b xs \<longleftrightarrow> b \<in> set (dropWhile (\<lambda>e. e \<noteq> a) xs)"

text \<open>
  The locks after a log, from the locks before it; and the lock order: the topology
  lock is never taken while the registry lock is held.
\<close>

fun lock_step :: "bool \<times> rwsem \<Rightarrow> event \<Rightarrow> bool \<times> rwsem" where
  "lock_step (r, d) EvRtnlLock = (True, d)"
| "lock_step (r, d) EvRtnlUnlock = (False, d)"
| "lock_step (r, d) EvDownWrite = (r, WriteLocked)"
| "lock_step (r, d) EvDownRead = (r, ReadLocked)"
| "lock_step (r, d) EvUpWrite = (r, Unlocked)"
| "lock_step (r, d) EvUpRead = (r, Unlocked)"
| "lock_step (r, d) _ = (r, d)"

definition locks_after :: "bool \<times> rwsem \<Rightarrow> event list \<Rightarrow> bool \<times> rwsem" where
  "locks_after l evs = foldl lock_step l evs"

definition locks_of :: "state \<Rightarrow> bool \<times> rwsem" where
  "locks_of s = (rtnl_held s, bpf_devs_lock s)"

fun lock_order_ok :: "rwsem \<Rightarrow> event list \<Rightarrow> bool" where
  "lock_order_ok d [] = True"
| "lock_order_ok d (e # es) =
     ((e = EvRtnlLock \<longrightarrow> d = Unlocked) \<and> lock_order_ok (snd (lock_step (False, d) e)) es)"

text \<open>
  The state a teardown leaves a program's descriptor in: allocated, off the list, no
  device, not active.
\<close>

definition torn_down :: "prog_ptr \<Rightarrow> state \<Rightarrow> bool" where
  "torn_down pg s \<longleftrightarrow>
     (case aux_offload (progs s pg) of
        None \<Rightarrow> False
      | Some p \<Rightarrow>
          (case offloads s p of
             None \<Rightarrow> False
           | Some off \<Rightarrow>
               netdev off = None \<and> \<not> dev_state off \<and> p \<notin> set (bpf_prog_offload_devs s)))"

text \<open>
  What the teardown of one descriptor says to the driver: nothing unless the descriptor
  is active; else the \<open>DESTROY\<close> command, and a warning when it fails.
\<close>

definition dispatch_events :: "state \<Rightarrow> prog_ptr \<Rightarrow> bpf_prog_offload \<Rightarrow> event list" where
  "dispatch_events s pg off =
     (if \<not> dev_state off then []
      else case netdev off of
        None \<Rightarrow> [EvWarn ''WARN_ON'']
      | Some d \<Rightarrow>
          (case ndo_bpf (netdevs s d) of
             None \<Rightarrow> []
           | Some h \<Rightarrow>
               EvNdo d BPF_OFFLOAD_DESTROY pg (fst (h BPF_OFFLOAD_DESTROY pg))
                 # (if fst (h BPF_OFFLOAD_DESTROY pg) \<noteq> 0 then [EvWarn ''WARN_ON''] else [])))"

text \<open>
  What the sweep for device \<open>nd\<close> needs of the list: every node is an allocated
  descriptor whose program points back at it, and an active descriptor bound to \<open>nd\<close>
  has a driver to talk to.
\<close>

definition sweep_ready :: "dev_ptr \<Rightarrow> off_ptr list \<Rightarrow> state \<Rightarrow> bool" where
  "sweep_ready nd ps s \<longleftrightarrow>
     (\<forall>p \<in> set ps.
        case offloads s p of
          None \<Rightarrow> False
        | Some off \<Rightarrow>
            (case prog off of
               None \<Rightarrow> False
             | Some pg \<Rightarrow>
                 aux_offload (progs s pg) = Some p \<and>
                 (netdev off = Some nd \<and> dev_state off \<longrightarrow> ndo_bpf (netdevs s nd) \<noteq> None)))"

text \<open>
  The same for every device: each descriptor on the list is the one its program points to,
  and an active one has a driver. The operations keep this as long as
  \<open>bpf_prog_offload_init\<close> is given a program that has no descriptor yet.
\<close>

definition owner_inv :: "state \<Rightarrow> bool" where
  "owner_inv s \<longleftrightarrow> (\<forall>nd. sweep_ready nd (bpf_prog_offload_devs s) s)"

fun prog_fresh :: "op \<Rightarrow> state \<Rightarrow> bool" where
  "prog_fresh (Op_init c a pg attr) s = (aux_offload (progs s pg) = None)"
| "prog_fresh _ s = True"

text \<open>A descriptor after the sweep for device \<open>nd\<close>, and the events of its teardown.\<close>

definition swept :: "dev_ptr \<Rightarrow> bpf_prog_offload \<Rightarrow> bpf_prog_offload" where
  "swept nd off = (if netdev off = Some nd then off\<lparr>netdev := None, dev_state := False\<rparr> else off)"

definition bound_to :: "state \<Rightarrow> dev_ptr \<Rightarrow> off_ptr \<Rightarrow> bool" where
  "bound_to s nd p \<longleftrightarrow> (case offloads s p of None \<Rightarrow> False | Some off \<Rightarrow> netdev off = Some nd)"

definition sweep_events :: "state \<Rightarrow> dev_ptr \<Rightarrow> off_ptr \<Rightarrow> event list" where
  "sweep_events s nd p =
     (case offloads s p of
        None \<Rightarrow> []
      | Some off \<Rightarrow>
          (case prog off of
             None \<Rightarrow> []
           | Some pg \<Rightarrow>
               if netdev off = Some nd
               then dispatch_events s pg off @ [EvFreeId pg, EvListDel p]
               else []))"

text \<open>Example states: program 0 bound to device 7, then prepared, then its device removed.\<close>

definition fs0 :: nsfs where
  "fs0 = \<lparr>ns_null_err = - 2, ns_path = (\<lambda>n. Inr (4, 4026531993)), new_encode_dev = (\<lambda>d. d)\<rparr>"

definition fs_fail :: nsfs where
  "fs_fail = \<lparr>ns_null_err = - 2, ns_path = (\<lambda>n. Inl (- 13)), new_encode_dev = (\<lambda>d. d)\<rparr>"

definition info0 :: bpf_prog_info where
  "info0 = \<lparr>info_ifindex = 9, netns_dev = 0, netns_ino = 0\<rparr>"

definition the_state :: "fault + state \<Rightarrow> state" where
  "the_state r = (case r of Inl _ \<Rightarrow> boot_state | Inr s \<Rightarrow> s)"

definition bound_state :: state where
  "bound_state = the_state (run_op fs0 (Op_init True (Some 5) 0 attr3) boot_state)"

definition prepped_state :: state where
  "prepped_state = the_state (run_op fs0 (Op_verifier_prep 0) bound_state)"

definition removed_state :: state where
  "removed_state = the_state (unregister_netdevice 7 prepped_state)"

definition removed_unprepped_state :: state where
  "removed_unprepped_state = the_state (unregister_netdevice 7 bound_state)"

definition destroyed_state :: state where
  "destroyed_state = the_state (bpf_prog_offload_destroy 0 prepped_state)"

text \<open>
  The same with the teardown alone, as the sweep runs it; and program 2 bound to device 8
  beside program 0, before and after device 7 is swept.
\<close>

definition torn_state :: state where
  "torn_state =
     the_state (uu_bpf_prog_offload_destroy 0
                  (prepped_state\<lparr>rtnl_held := True, bpf_devs_lock := WriteLocked\<rparr>))"

definition compiled_state :: state where
  "compiled_state = the_state (run_op fs0 (Op_compile 0) prepped_state)"

definition attr4 :: bpf_attr where
  "attr4 = \<lparr>prog_flags = 0, prog_ifindex = 4\<rparr>"

definition two_bound_state :: state where
  "two_bound_state = the_state (run_op fs0 (Op_init True (Some 6) 2 attr4) prepped_state)"

definition unregistering_state :: state where
  "unregistering_state =
     two_bound_state
       \<lparr>netdevs := (netdevs two_bound_state)
                     (7 := (netdevs two_bound_state 7)\<lparr>reg_state := NETREG_UNREGISTERING\<rparr>),
        rtnl_held := True\<rparr>"

definition moved_state :: state where
  "moved_state =
     the_state (run_op fs0 (Op_notification NETDEV_UNREGISTER 8) unregistering_state)"

definition swept_state :: state where
  "swept_state =
     the_state (run_op fs0 (Op_notification NETDEV_UNREGISTER 7) unregistering_state)"

text \<open>
  Program 0 handed to \<open>bpf_prog_offload_init\<close> a second time, after program 2: descriptor 5
  stays on the list, bound to device 7, while program 0 now points to descriptor 9. Then
  device 7 is unregistering.
\<close>

definition rebound_state :: state where
  "rebound_state = the_state (run_op fs0 (Op_init True (Some 9) 0 attr3) two_bound_state)"

definition orphan_state :: state where
  "orphan_state =
     rebound_state
       \<lparr>netdevs := (netdevs rebound_state)
                     (7 := (netdevs rebound_state 7)\<lparr>reg_state := NETREG_UNREGISTERING\<rparr>),
        rtnl_held := True\<rparr>"

section \<open>Basic facts\<close>

lemma bind_f_simps [simp]:
  "bind_f (Inl f) k = Inl f"
  "bind_f (Inr x) k = k x"
  by (simp_all add: bind_f_def)

lemma bind_f_eq_Inr: "bind_f m k = Inr y \<longleftrightarrow> (\<exists>x. m = Inr x \<and> k x = Inr y)"
  by (cases m) simp_all

lemma bind_f_eq_Inl: "bind_f m k = Inl f \<longleftrightarrow> m = Inl f \<or> (\<exists>x. m = Inr x \<and> k x = Inl f)"
  by (cases m) simp_all

lemma emit_fields [simp]:
  "offloads (emit e s) = offloads s"
  "bpf_prog_offload_devs (emit e s) = bpf_prog_offload_devs s"
  "progs (emit e s) = progs s"
  "netdevs (emit e s) = netdevs s"
  "dev_by_index (emit e s) = dev_by_index s"
  "rtnl_held (emit e s) = rtnl_held s"
  "bpf_devs_lock (emit e s) = bpf_devs_lock s"
  "trace (emit e s) = trace s @ [e]"
  by (simp_all add: emit_def)

lemma upd_offload_fields [simp]:
  "offloads (upd_offload p f s) = (offloads s)(p := map_option f (offloads s p))"
  "bpf_prog_offload_devs (upd_offload p f s) = bpf_prog_offload_devs s"
  "progs (upd_offload p f s) = progs s"
  "netdevs (upd_offload p f s) = netdevs s"
  "dev_by_index (upd_offload p f s) = dev_by_index s"
  "rtnl_held (upd_offload p f s) = rtnl_held s"
  "bpf_devs_lock (upd_offload p f s) = bpf_devs_lock s"
  "trace (upd_offload p f s) = trace s"
  by (simp_all add: upd_offload_def)

lemma ASSERT_RTNL_fields [simp]:
  "offloads (ASSERT_RTNL s) = offloads s"
  "bpf_prog_offload_devs (ASSERT_RTNL s) = bpf_prog_offload_devs s"
  "progs (ASSERT_RTNL s) = progs s"
  "netdevs (ASSERT_RTNL s) = netdevs s"
  "dev_by_index (ASSERT_RTNL s) = dev_by_index s"
  "rtnl_held (ASSERT_RTNL s) = rtnl_held s"
  "bpf_devs_lock (ASSERT_RTNL s) = bpf_devs_lock s"
  by (simp_all add: ASSERT_RTNL_def)

lemma ASSERT_RTNL_held [simp]: "rtnl_held s \<Longrightarrow> ASSERT_RTNL s = s"
  by (simp add: ASSERT_RTNL_def)

lemma WARN_ON_fields [simp]:
  "offloads (WARN_ON c s) = offloads s"
  "bpf_prog_offload_devs (WARN_ON c s) = bpf_prog_offload_devs s"
  "progs (WARN_ON c s) = progs s"
  "netdevs (WARN_ON c s) = netdevs s"
  "dev_by_index (WARN_ON c s) = dev_by_index s"
  "rtnl_held (WARN_ON c s) = rtnl_held s"
  "bpf_devs_lock (WARN_ON c s) = bpf_devs_lock s"
  "trace (WARN_ON c s) = trace s @ (if c then [EvWarn ''WARN_ON''] else [])"
  by (simp_all add: WARN_ON_def WARN_def)

lemma unlock_fields [simp]:
  "offloads (rtnl_unlock s) = offloads s"
  "bpf_prog_offload_devs (rtnl_unlock s) = bpf_prog_offload_devs s"
  "progs (rtnl_unlock s) = progs s"
  "netdevs (rtnl_unlock s) = netdevs s"
  "dev_by_index (rtnl_unlock s) = dev_by_index s"
  "rtnl_held (rtnl_unlock s) = False"
  "bpf_devs_lock (rtnl_unlock s) = bpf_devs_lock s"
  "trace (rtnl_unlock s) = trace s @ [EvRtnlUnlock]"
  "offloads (up_write s) = offloads s"
  "bpf_prog_offload_devs (up_write s) = bpf_prog_offload_devs s"
  "progs (up_write s) = progs s"
  "netdevs (up_write s) = netdevs s"
  "dev_by_index (up_write s) = dev_by_index s"
  "rtnl_held (up_write s) = rtnl_held s"
  "bpf_devs_lock (up_write s) = Unlocked"
  "trace (up_write s) = trace s @ [EvUpWrite]"
  "offloads (up_read s) = offloads s"
  "bpf_prog_offload_devs (up_read s) = bpf_prog_offload_devs s"
  "progs (up_read s) = progs s"
  "netdevs (up_read s) = netdevs s"
  "dev_by_index (up_read s) = dev_by_index s"
  "rtnl_held (up_read s) = rtnl_held s"
  "bpf_devs_lock (up_read s) = Unlocked"
  "trace (up_read s) = trace s @ [EvUpRead]"
  by (simp_all add: rtnl_unlock_def up_write_def up_read_def)

lemma lock_eq_Inr:
  "rtnl_lock s = Inr s1 \<longleftrightarrow> \<not> rtnl_held s \<and> s1 = emit EvRtnlLock (s\<lparr>rtnl_held := True\<rparr>)"
  "down_write s = Inr s1 \<longleftrightarrow>
     bpf_devs_lock s = Unlocked \<and> s1 = emit EvDownWrite (s\<lparr>bpf_devs_lock := WriteLocked\<rparr>)"
  "down_read s = Inr s1 \<longleftrightarrow>
     bpf_devs_lock s = Unlocked \<and> s1 = emit EvDownRead (s\<lparr>bpf_devs_lock := ReadLocked\<rparr>)"
  by (auto simp: rtnl_lock_def down_write_def down_read_def)

lemma load_offload_eq_Inr:
  "load_offload po s = Inr (p, off) \<longleftrightarrow> po = Some p \<and> offloads s p = Some off"
  by (auto simp: load_offload_def split: option.splits)

lemma kfree_eq_Inr:
  "kfree (Some p) s = Inr s' \<longleftrightarrow>
     offloads s p \<noteq> None \<and> s' = emit (EvKfree p) (s\<lparr>offloads := (offloads s)(p := None)\<rparr>)"
  by (auto simp: kfree_def split: option.splits)

lemma list_ops_fields [simp]:
  "offloads (list_del_init p s) = offloads s"
  "bpf_prog_offload_devs (list_del_init p s) = removeAll p (bpf_prog_offload_devs s)"
  "progs (list_del_init p s) = progs s"
  "netdevs (list_del_init p s) = netdevs s"
  "rtnl_held (list_del_init p s) = rtnl_held s"
  "bpf_devs_lock (list_del_init p s) = bpf_devs_lock s"
  "trace (list_del_init p s) = trace s @ [EvListDel p]"
  "offloads (list_add_tail p s) = offloads s"
  "bpf_prog_offload_devs (list_add_tail p s) = bpf_prog_offload_devs s @ [p]"
  "progs (list_add_tail p s) = progs s"
  "netdevs (list_add_tail p s) = netdevs s"
  "rtnl_held (list_add_tail p s) = rtnl_held s"
  "bpf_devs_lock (list_add_tail p s) = bpf_devs_lock s"
  "trace (list_add_tail p s) = trace s @ [EvListAdd p]"
  "dev_by_index (list_del_init p s) = dev_by_index s"
  "dev_by_index (list_add_tail p s) = dev_by_index s"
  by (simp_all add: list_del_init_def list_add_tail_def)

lemma free_id_fields [simp]:
  "offloads (bpf_prog_free_id pg s) = offloads s"
  "bpf_prog_offload_devs (bpf_prog_free_id pg s) = bpf_prog_offload_devs s"
  "aux_offload (progs (bpf_prog_free_id pg s) q) = aux_offload (progs s q)"
  "bpf_func (progs (bpf_prog_free_id pg s) q) = bpf_func (progs s q)"
  "netdevs (bpf_prog_free_id pg s) = netdevs s"
  "rtnl_held (bpf_prog_free_id pg s) = rtnl_held s"
  "bpf_devs_lock (bpf_prog_free_id pg s) = bpf_devs_lock s"
  "trace (bpf_prog_free_id pg s) = trace s @ [EvFreeId pg]"
  "dev_by_index (bpf_prog_free_id pg s) = dev_by_index s"
  by (simp_all add: bpf_prog_free_id_def)

lemma ndo_unfold:
  "uu_bpf_offload_ndo pg cmd s =
     (case aux_offload (progs s pg) of
        None \<Rightarrow> Inl NullDeref
      | Some p \<Rightarrow>
          (case offloads s p of
             None \<Rightarrow> Inl UseAfterFree
           | Some off \<Rightarrow>
               (case netdev off of
                  None \<Rightarrow> Inr ((- ENODEV, None), ASSERT_RTNL s)
                | Some d \<Rightarrow>
                    (case ndo_bpf (netdevs s d) of
                       None \<Rightarrow> Inl NullDeref
                     | Some h \<Rightarrow>
                         Inr (h cmd pg, emit (EvNdo d cmd pg (fst (h cmd pg))) (ASSERT_RTNL s))))))"
  by (simp add: uu_bpf_offload_ndo_def load_offload_def Let_def split: option.splits)

lemma ndo_Inr:
  assumes "uu_bpf_offload_ndo pg cmd s = Inr (r, s')"
  shows "offloads s' = offloads s" "bpf_prog_offload_devs s' = bpf_prog_offload_devs s"
    "progs s' = progs s" "netdevs s' = netdevs s" "rtnl_held s' = rtnl_held s"
    "bpf_devs_lock s' = bpf_devs_lock s"
  using assms
  by (auto simp: ndo_unfold split: option.split_asm)

lemma uu_destroy_Inr:
  assumes "uu_bpf_prog_offload_destroy pg s = Inr s'"
  shows "\<exists>p off. aux_offload (progs s pg) = Some p \<and> offloads s p = Some off \<and>
           offloads s' = (offloads s)(p \<mapsto> off\<lparr>dev_state := False, netdev := None\<rparr>) \<and>
           bpf_prog_offload_devs s' = removeAll p (bpf_prog_offload_devs s) \<and>
           netdevs s' = netdevs s \<and> rtnl_held s' = rtnl_held s \<and>
           bpf_devs_lock s' = bpf_devs_lock s \<and>
           (\<forall>q. aux_offload (progs s' q) = aux_offload (progs s q)) \<and>
           (\<forall>q. bpf_func (progs s' q) = bpf_func (progs s q))"
  using assms
  by (auto simp: uu_bpf_prog_offload_destroy_def bind_f_eq_Inr load_offload_eq_Inr Let_def
      ndo_Inr split: if_splits prod.splits)

section \<open>Admission errors of init\<close>

text \<open>
  C7. \<open>bpf_prog_offload_init\<close> without the administrative capability returns \<open>-EPERM\<close>;
  with the capability and nonzero flags it returns \<open>-EINVAL\<close>. In both cases the state it
  returns is the state it was given: nothing was looked up, allocated, locked or logged.
\<close>

theorem init_admission_errors:
  "(\<not> capable_admin \<longrightarrow> bpf_prog_offload_init capable_admin alloc pg attr s = Inr (- EPERM, s)) \<and>
   (capable_admin \<and> prog_flags attr \<noteq> 0 \<longrightarrow>
      bpf_prog_offload_init capable_admin alloc pg attr s = Inr (- EINVAL, s))"
  by (simp add: bpf_prog_offload_init_def)

theorem init_admission_errors_witness:
  "\<not> False \<and> bpf_prog_offload_init False (Some 5) 0 attr3 boot_state = Inr (- EPERM, boot_state) \<and>
   (True \<and> prog_flags (attr3\<lparr>prog_flags := 1\<rparr>) \<noteq> 0) \<and>
   bpf_prog_offload_init True (Some 5) 0 (attr3\<lparr>prog_flags := 1\<rparr>) boot_state
     = Inr (- EINVAL, boot_state)"
  using init_admission_errors [where capable_admin = False and alloc = "Some 5" and pg = 0
      and attr = attr3 and s = boot_state]
    init_admission_errors [where capable_admin = True and alloc = "Some 5" and pg = 0
      and attr = "attr3\<lparr>prog_flags := 1\<rparr>" and s = boot_state]
  by (simp add: attr3_def)

section \<open>The registry invariant\<close>

lemma inv_uu_destroy:
  assumes "offload_inv s" "uu_bpf_prog_offload_destroy pg s = Inr s'"
  shows "offload_inv s'"
  using uu_destroy_Inr [OF assms(2)] assms(1)
  by (auto simp: offload_inv_def distinct_removeAll split: if_splits)

lemma init_inv:
  assumes "offload_inv s" "offloads s p = None"
    "bpf_prog_offload_init c (Some p) pg attr s = Inr (r, s')"
  shows "offload_inv s'"
  using assms
  by (auto simp: bpf_prog_offload_init_def Let_def err_maybe_put_def kzalloc_def
      dev_get_by_index_def lock_eq_Inr kfree_eq_Inr load_offload_eq_Inr dev_put_def
      bind_f_eq_Inr offload_inv_def zero_offload_def
      split: if_splits option.splits prod.splits)

lemma init_inv_None:
  assumes "bpf_prog_offload_init c None pg attr s = Inr (r, s')"
  shows "s' = s"
  using assms
  by (auto simp: bpf_prog_offload_init_def split: if_splits)

lemma ndo_frame:
  assumes "uu_bpf_offload_ndo pg cmd s = Inr (r, s')"
  shows "offloads s' = offloads s \<and> bpf_prog_offload_devs s' = bpf_prog_offload_devs s \<and>
    progs s' = progs s \<and> netdevs s' = netdevs s \<and> rtnl_held s' = rtnl_held s \<and>
    bpf_devs_lock s' = bpf_devs_lock s"
  using ndo_Inr [OF assms] by simp

lemma offload_inv_cong:
  "offloads s' = offloads s \<Longrightarrow> bpf_prog_offload_devs s' = bpf_prog_offload_devs s \<Longrightarrow>
   offload_inv s' = offload_inv s"
  by (simp add: offload_inv_def)

lemma prep_inv:
  assumes "offload_inv s" "bpf_prog_offload_verifier_prep pg s = Inr (r, s')"
  shows "offload_inv s'"
  using assms
  by (auto simp: bpf_prog_offload_verifier_prep_def bind_f_eq_Inr lock_eq_Inr load_offload_eq_Inr
      Let_def offload_inv_def dest!: ndo_frame split: if_splits prod.splits)

lemma verify_insn_frame:
  assumes "bpf_prog_offload_verify_insn pg i j s = Inr (r, s')"
  shows "offloads s' = offloads s \<and> bpf_prog_offload_devs s' = bpf_prog_offload_devs s"
  using assms
  by (auto simp: bpf_prog_offload_verify_insn_def bind_f_eq_Inr lock_eq_Inr load_offload_eq_Inr
      split: option.split_asm)

lemma compile_frame:
  assumes "bpf_prog_offload_compile pg s = Inr (r, s')"
  shows "offloads s' = offloads s \<and> bpf_prog_offload_devs s' = bpf_prog_offload_devs s"
  using assms
  by (auto simp: bpf_prog_offload_compile_def bpf_prog_offload_translate_def bind_f_eq_Inr lock_eq_Inr
       dest!: ndo_frame)

lemma destroy_unfold:
  "bpf_prog_offload_destroy pg s = Inr s' \<longleftrightarrow>
     \<not> rtnl_held s \<and> bpf_devs_lock s = Unlocked \<and>
     (\<exists>s3. uu_bpf_prog_offload_destroy pg
             (emit EvDownWrite (emit EvRtnlLock (s\<lparr>rtnl_held := True\<rparr>)\<lparr>bpf_devs_lock := WriteLocked\<rparr>))
             = Inr s3 \<and>
           kfree (aux_offload (progs s pg)) (rtnl_unlock (up_write s3)) = Inr s')"
  by (auto simp: bpf_prog_offload_destroy_def Let_def bind_f_eq_Inr lock_eq_Inr)

lemma destroy_inv:
  assumes "offload_inv s" "bpf_prog_offload_destroy pg s = Inr s'"
  shows "offload_inv s'"
proof -
  let ?s2 = "emit EvDownWrite (emit EvRtnlLock (s\<lparr>rtnl_held := True\<rparr>)\<lparr>bpf_devs_lock := WriteLocked\<rparr>)"
  from assms(2) obtain s3 where
    d: "uu_bpf_prog_offload_destroy pg ?s2 = Inr s3"
    and k: "kfree (aux_offload (progs s pg)) (rtnl_unlock (up_write s3)) = Inr s'"
    unfolding destroy_unfold by blast
  from assms(1) have "offload_inv ?s2" by (simp add: offload_inv_def)
  from inv_uu_destroy [OF this d] have "offload_inv s3" .
  with k uu_destroy_Inr [OF d] show ?thesis
    by (auto simp: kfree_def offload_inv_def split: option.split_asm if_splits)
qed

lemma info_fill_frame:
  assumes "bpf_prog_offload_info_fill fs info pg s = Inr (r, s')"
  shows "offloads s' = offloads s \<and> bpf_prog_offload_devs s' = bpf_prog_offload_devs s"
  using assms
  by (auto simp: bpf_prog_offload_info_fill_def ns_get_path_cb_def bpf_prog_offload_info_fill_ns_def
      bind_f_eq_Inr lock_eq_Inr load_offload_eq_Inr Let_def
      split: option.split_asm sum.split_asm if_splits prod.split_asm)

lemma sweep_body_Inr:
  "sweep_body nd p s = Inr s1 \<Longrightarrow>
     s1 = s \<or> (\<exists>pg. uu_bpf_prog_offload_destroy pg s = Inr s1)"
  by (auto simp: sweep_body_def bind_f_eq_Inr load_offload_eq_Inr split: if_splits option.split_asm)

text \<open>
  Whatever the loop does to the list, it only runs teardowns: a property that every
  returning \<open>__bpf_prog_offload_destroy\<close> keeps holds after a loop that returns.
\<close>

lemma sweep_loop_inv:
  assumes "sweep_loop nd pos tmp s = Some (Inr s')" and "I s"
    and step: "\<And>pg t t1. I t \<Longrightarrow> uu_bpf_prog_offload_destroy pg t = Inr t1 \<Longrightarrow> I t1"
  shows "I s'"
proof -
  have "sweep_loop nd pos tmp s = Some y \<Longrightarrow> I s \<longrightarrow> (\<forall>t. y = Inr t \<longrightarrow> I t)" for y
  proof (induct rule: sweep_loop.raw_induct [rotated 1, consumes 1, case_names step])
    case (step f nd pos tmp s y)
    show ?case
    proof (cases pos)
      case At_head
      with step(2) show ?thesis by auto
    next
      case (At_node p)
      show ?thesis
      proof (cases "sweep_body nd p s")
        case (Inl e)
        with step(2) At_node show ?thesis by auto
      next
        case (Inr s1)
        with step(2) At_node have "f nd tmp (list_next tmp (bpf_prog_offload_devs s1)) s1 = Some y" by simp
        from step(1) [OF this] have ih: "I s1 \<longrightarrow> (\<forall>t. y = Inr t \<longrightarrow> I t)" .
        have "I s \<Longrightarrow> I s1"
          using Inr assms(3)
          by (auto simp: sweep_body_def bind_f_def load_offload_def split: option.splits if_splits sum.splits)
        with ih show ?thesis by blast
      qed
    qed
  qed
  with assms(1,2) show ?thesis by blast
qed

lemma sweep_inv:
  assumes "offload_inv s" "offload_sweep nd s = Some (Inr s')"
  shows "offload_inv s'"
  using assms(2) unfolding offload_sweep_def Let_def
  by (rule sweep_loop_inv) (rule assms(1), rule inv_uu_destroy)

lemma notification_unfold:
  "bpf_offload_notification ev nd s = Some (Inr (r, s')) \<longleftrightarrow>
     r = NOTIFY_OK \<and>
     (if ev = NETDEV_UNREGISTER
      then (if reg_state (netdevs s nd) \<noteq> NETREG_UNREGISTERING
            then s' = emit (EvRegStateCheck nd) (ASSERT_RTNL s)
            else bpf_devs_lock s = Unlocked \<and>
                 (\<exists>s4. offload_sweep nd
                          (emit EvDownWrite (emit (EvRegStateCheck nd) (ASSERT_RTNL s)\<lparr>bpf_devs_lock := WriteLocked\<rparr>))
                          = Some (Inr s4) \<and> s' = up_write s4))
      else s' = ASSERT_RTNL s)"
  by (auto simp: bpf_offload_notification_def Let_def bind_f_eq_Inr down_write_def)

lemma run_op_notification:
  "run_op fs (Op_notification ev nd) s = Inr s' \<longleftrightarrow>
     (\<exists>r. bpf_offload_notification ev nd s = Some (Inr (r, s')))"
  by (auto simp: bind_f_eq_Inr split: option.splits)

lemma notification_inv:
  assumes "offload_inv s" "bpf_offload_notification ev nd s = Some (Inr (r, s'))"
  shows "offload_inv s'"
proof (cases "ev = NETDEV_UNREGISTER \<and> reg_state (netdevs s nd) = NETREG_UNREGISTERING")
  case False
  with assms show ?thesis
    by (auto simp: notification_unfold offload_inv_def split: if_splits)
next
  case True
  let ?s3 = "emit EvDownWrite (emit (EvRegStateCheck nd) (ASSERT_RTNL s)\<lparr>bpf_devs_lock := WriteLocked\<rparr>)"
  from True assms(2) obtain s4 where
    sw: "offload_sweep nd ?s3 = Some (Inr s4)" and s': "s' = up_write s4"
    unfolding notification_unfold by auto
  from assms(1) have "offload_inv ?s3" by (simp add: offload_inv_def)
  from sweep_inv [OF this sw] s' show ?thesis by (simp add: offload_inv_def)
qed

lemma offload_inv_members:
  "offload_inv s \<Longrightarrow> offloads s p = Some off \<Longrightarrow>
     (p \<in> set (bpf_prog_offload_devs s) \<longleftrightarrow> netdev off \<noteq> None)"
  by (auto simp: offload_inv_def)

lemma run_op_inv:
  assumes "offload_inv s" "alloc_fresh op s" "run_op fs op s = Inr s'"
  shows "offload_inv s'"
proof (cases op)
  case (Op_init c a pg attr)
  show ?thesis
  proof (cases a)
    case None
    with Op_init assms show ?thesis
      by (auto simp: bind_f_eq_Inr dest: init_inv_None)
  next
    case (Some p)
    with Op_init assms show ?thesis
      by (auto simp: bind_f_eq_Inr dest: init_inv)
  qed
next
  case (Op_verifier_prep pg)
  with assms show ?thesis by (auto simp: bind_f_eq_Inr dest: prep_inv)
next
  case (Op_verify_insn pg i j)
  with assms(3) obtain r where "offloads s' = offloads s \<and> bpf_prog_offload_devs s' = bpf_prog_offload_devs s"
    by (auto simp: bind_f_eq_Inr dest!: verify_insn_frame)
  with assms(1) show ?thesis by (simp add: offload_inv_def)
next
  case (Op_compile pg)
  with assms(3) obtain r where "offloads s' = offloads s \<and> bpf_prog_offload_devs s' = bpf_prog_offload_devs s"
    by (auto simp: bind_f_eq_Inr dest!: compile_frame)
  with assms(1) show ?thesis by (simp add: offload_inv_def)
next
  case (Op_destroy pg)
  with assms show ?thesis by (auto dest: destroy_inv)
next
  case (Op_info_fill info pg)
  with assms(3) obtain r where "offloads s' = offloads s \<and> bpf_prog_offload_devs s' = bpf_prog_offload_devs s"
    by (auto simp: bind_f_eq_Inr dest!: info_fill_frame)
  with assms(1) show ?thesis by (simp add: offload_inv_def)
next
  case (Op_notification ev nd)
  with assms(3) have "run_op fs (Op_notification ev nd) s = Inr s'" by simp
  then obtain r where "bpf_offload_notification ev nd s = Some (Inr (r, s'))"
    unfolding run_op_notification by blast
  with assms(1) show ?thesis by (rule notification_inv)
qed

text \<open>
  C2. An operation that starts where the registry invariant holds, with the allocator
  handing out an unused address, and that returns, ends where the invariant holds: every
  allocated descriptor is on \<open>bpf_prog_offload_devs\<close> exactly when its \<open>netdev\<close> is not
  NULL.
\<close>

theorem registry_member_iff_device:
  assumes "offload_inv s" and "alloc_fresh op s" and "run_op fs op s = Inr s'"
  shows "offload_inv s' \<and>
         (\<forall>p off. offloads s' p = Some off \<longrightarrow>
            (p \<in> set (bpf_prog_offload_devs s') \<longleftrightarrow> netdev off \<noteq> None))"
  using run_op_inv [OF assms] by (auto simp: offload_inv_members)

lemma offload_inv_boot: "offload_inv boot_state"
  by (simp add: offload_inv_def boot_state_def)

lemma init_boot:
  "bpf_prog_offload_init True (Some 5) 0 attr3 boot_state = Inr (0, bound_state)"
  by (simp add: bound_state_def the_state_def bpf_prog_offload_init_def boot_state_def attr3_def
      kzalloc_def dev_get_by_index_def bpf_dev_offload_check_def lock_eq_Inr down_write_def
      dev_put_def Let_def EOPNOTSUPP_def EINVAL_def)

lemma bound_state_fields:
  "offloads bound_state = (\<lambda>_. None)(5 \<mapsto> \<lparr>prog = Some 0, netdev = Some 7, dev_ops = None, dev_state = False\<rparr>)"
  "bpf_prog_offload_devs bound_state = [5]"
  "rtnl_held bound_state = False"
  "bpf_devs_lock bound_state = Unlocked"
  "aux_offload (progs bound_state 0) = Some 5"
  "netdevs bound_state = netdevs boot_state"
  by (simp_all add: bound_state_def the_state_def bpf_prog_offload_init_def boot_state_def attr3_def
      kzalloc_def dev_get_by_index_def bpf_dev_offload_check_def lock_eq_Inr down_write_def
      dev_put_def Let_def EOPNOTSUPP_def EINVAL_def zero_offload_def fun_eq_iff)

theorem registry_member_iff_device_witness:
  "offload_inv boot_state \<and> alloc_fresh (Op_init True (Some 5) 0 attr3) boot_state \<and>
   run_op fs0 (Op_init True (Some 5) 0 attr3) boot_state = Inr bound_state \<and>
   offload_inv bound_state \<and> 5 \<in> set (bpf_prog_offload_devs bound_state) \<and>
   map_option netdev (offloads bound_state 5) = Some (Some 7)"
proof -
  have h1: "offload_inv boot_state" by (rule offload_inv_boot)
  have h2: "alloc_fresh (Op_init True (Some 5) 0 attr3) boot_state"
    by (simp add: boot_state_def)
  have h3: "run_op fs0 (Op_init True (Some 5) 0 attr3) boot_state = Inr bound_state"
    by (simp add: init_boot)
  from registry_member_iff_device [OF h1 h2 h3] h1 h2 h3 show ?thesis
    by (simp add: bound_state_fields)
qed

section \<open>Verdicts of verify_insn\<close>

lemma init_ok:
  assumes "bpf_prog_offload_init c alloc pg attr s = Inr (0, s1)"
  shows "\<exists>p d h. alloc = Some p \<and> c \<and> prog_flags attr = 0 \<and>
           dev_by_index s (prog_ifindex attr) = Some d \<and> ndo_bpf (netdevs s d) = Some h \<and>
           reg_state (netdevs s d) = NETREG_REGISTERED \<and> bpf_devs_lock s = Unlocked \<and>
           offloads s1 = (offloads s)(p \<mapsto> \<lparr>prog = Some pg, netdev = Some d, dev_ops = None, dev_state = False\<rparr>) \<and>
           bpf_prog_offload_devs s1 = bpf_prog_offload_devs s @ [p] \<and>
           progs s1 = (progs s)(pg := (progs s pg)\<lparr>aux_offload := Some p\<rparr>) \<and>
           netdevs s1 = netdevs s \<and> rtnl_held s1 = rtnl_held s \<and> bpf_devs_lock s1 = Unlocked \<and>
           trace s1 = trace s @ [EvKzalloc p, EvDevHold d, EvDownWrite, EvRegStateCheck d,
                                 EvListAdd p, EvDevPut d, EvUpWrite]"
  using assms
  by (auto simp: bpf_prog_offload_init_def Let_def err_maybe_put_def kzalloc_def
      dev_get_by_index_def lock_eq_Inr kfree_eq_Inr load_offload_eq_Inr dev_put_def
      bind_f_eq_Inr zero_offload_def bpf_dev_offload_check_def
      EPERM_def EINVAL_def ENOMEM_def EOPNOTSUPP_def
      split: if_splits option.split_asm prod.split_asm)

lemma prep_unfold:
  "bpf_prog_offload_verifier_prep pg s =
     (if rtnl_held s then Inl Deadlock
      else case aux_offload (progs s pg) of
        None \<Rightarrow> Inl NullDeref
      | Some p \<Rightarrow>
          (case offloads s p of
             None \<Rightarrow> Inl UseAfterFree
           | Some off \<Rightarrow>
               (case netdev off of
                  None \<Rightarrow> Inr (- ENODEV, rtnl_unlock (emit EvRtnlLock (s\<lparr>rtnl_held := True\<rparr>)))
                | Some d \<Rightarrow>
                    (case ndo_bpf (netdevs s d) of
                       None \<Rightarrow> Inl NullDeref
                     | Some h \<Rightarrow>
                         (let r = h BPF_OFFLOAD_VERIFIER_PREP pg;
                              s2 = emit (EvNdo d BPF_OFFLOAD_VERIFIER_PREP pg (fst r))
                                     (emit EvRtnlLock (s\<lparr>rtnl_held := True\<rparr>))
                          in if fst r \<noteq> 0 then Inr (fst r, rtnl_unlock s2)
                             else Inr (0, rtnl_unlock
                                    (upd_offload p (\<lambda>off. off\<lparr>dev_state := True\<rparr>)
                                      (upd_offload p (\<lambda>off. off\<lparr>dev_ops := snd r\<rparr>) s2))))))))"
  by (simp add: bpf_prog_offload_verifier_prep_def rtnl_lock_def ndo_unfold load_offload_def Let_def
      ENODEV_def split: option.splits prod.splits)

lemma prep_ok:
  assumes "bpf_prog_offload_verifier_prep pg s = Inr (0, s2)"
  shows "\<exists>p off d h. aux_offload (progs s pg) = Some p \<and> offloads s p = Some off \<and>
           netdev off = Some d \<and> ndo_bpf (netdevs s d) = Some h \<and>
           fst (h BPF_OFFLOAD_VERIFIER_PREP pg) = 0 \<and> \<not> rtnl_held s \<and>
           offloads s2 = (offloads s)(p \<mapsto> off\<lparr>dev_ops := snd (h BPF_OFFLOAD_VERIFIER_PREP pg), dev_state := True\<rparr>) \<and>
           bpf_prog_offload_devs s2 = bpf_prog_offload_devs s \<and>
           progs s2 = progs s \<and> netdevs s2 = netdevs s \<and> \<not> rtnl_held s2 \<and>
           bpf_devs_lock s2 = bpf_devs_lock s \<and>
           trace s2 = trace s @ [EvRtnlLock, EvNdo d BPF_OFFLOAD_VERIFIER_PREP pg 0, EvRtnlUnlock]"
  using assms
  by (auto simp: prep_unfold Let_def ENODEV_def split: if_splits option.split_asm)

lemma verify_insn_unfold:
  "bpf_prog_offload_verify_insn pg i j s =
     (if bpf_devs_lock s \<noteq> Unlocked then Inl Deadlock
      else case aux_offload (progs s pg) of
        None \<Rightarrow> Inl NullDeref
      | Some p \<Rightarrow>
          (case offloads s p of
             None \<Rightarrow> Inl UseAfterFree
           | Some off \<Rightarrow>
               (case netdev off of
                  None \<Rightarrow> Inr (- ENODEV, up_read (emit EvDownRead (s\<lparr>bpf_devs_lock := ReadLocked\<rparr>)))
                | Some d \<Rightarrow>
                    (case dev_ops off of
                       None \<Rightarrow> Inl NullDeref
                     | Some ops \<Rightarrow>
                         Inr (insn_hook ops pg i j,
                              up_read (emit (EvInsnHook pg i j)
                                (emit EvDownRead (s\<lparr>bpf_devs_lock := ReadLocked\<rparr>)))))))) "
  by (simp add: bpf_prog_offload_verify_insn_def down_read_def load_offload_def split: option.splits)

text \<open>
  C1, as the code has it. After \<open>bpf_prog_offload_init\<close> has returned 0 the descriptor has
  a device and no hook table: \<open>bpf_prog_offload_verify_insn\<close> then reads through the NULL
  \<open>dev_ops\<close> and returns nothing, in particular not \<open>-ENODEV\<close>. After
  \<open>bpf_prog_offload_verifier_prep\<close> has returned 0 as well, the hook table is the one the
  driver of the bound device left in \<open>data.verifier.ops\<close>, and \<open>verify_insn\<close> returns the
  verdict of its \<open>insn_hook\<close> for every pair of instruction indices. \<open>-ENODEV\<close> is what
  \<open>verify_insn\<close> returns, with \<open>bpf_devs_lock\<close> free, for a program whose descriptor is
  still allocated and has \<open>netdev\<close> NULL, which is how the device-removal sweep leaves it.
  Nothing is said here of a program after \<open>bpf_prog_offload_destroy\<close>, which frees the
  descriptor and leaves \<open>prog->aux->offload\<close> pointing at it.
\<close>

theorem verify_insn_verdict:
  "(bpf_prog_offload_init c alloc pg attr s = Inr (0, s1) \<longrightarrow>
      (\<forall>i j. bpf_prog_offload_verify_insn pg i j s1 = Inl NullDeref) \<and>
      (\<forall>s2. bpf_prog_offload_verifier_prep pg s1 = Inr (0, s2) \<longrightarrow>
         (\<exists>d h. dev_by_index s (prog_ifindex attr) = Some d \<and> ndo_bpf (netdevs s d) = Some h \<and>
            (\<forall>ops. snd (h BPF_OFFLOAD_VERIFIER_PREP pg) = Some ops \<longrightarrow>
               (\<forall>i j. \<exists>s3. bpf_prog_offload_verify_insn pg i j s2
                              = Inr (insn_hook ops pg i j, s3)))))) \<and>
   (\<forall>p off. bpf_devs_lock t = Unlocked \<and> aux_offload (progs t pg) = Some p \<and>
       offloads t p = Some off \<and> netdev off = None \<longrightarrow>
       (\<forall>i j. \<exists>t'. bpf_prog_offload_verify_insn pg i j t = Inr (- ENODEV, t')))"
proof (intro conjI impI allI)
  fix i j
  assume "bpf_prog_offload_init c alloc pg attr s = Inr (0, s1)"
  from init_ok [OF this] show "bpf_prog_offload_verify_insn pg i j s1 = Inl NullDeref"
    by (auto simp: verify_insn_unfold)
next
  fix s2
  assume i: "bpf_prog_offload_init c alloc pg attr s = Inr (0, s1)"
    and p: "bpf_prog_offload_verifier_prep pg s1 = Inr (0, s2)"
  from init_ok [OF i] obtain p0 d h where
    a: "dev_by_index s (prog_ifindex attr) = Some d" "ndo_bpf (netdevs s d) = Some h"
      "offloads s1 = (offloads s)(p0 \<mapsto> \<lparr>prog = Some pg, netdev = Some d, dev_ops = None, dev_state = False\<rparr>)"
      "progs s1 = (progs s)(pg := (progs s pg)\<lparr>aux_offload := Some p0\<rparr>)"
      "netdevs s1 = netdevs s" "bpf_devs_lock s1 = Unlocked"
    by blast
  from prep_ok [OF p] a have
    b: "offloads s2 p0 = Some \<lparr>prog = Some pg, netdev = Some d,
          dev_ops = snd (h BPF_OFFLOAD_VERIFIER_PREP pg), dev_state = True\<rparr>"
      "aux_offload (progs s2 pg) = Some p0" "bpf_devs_lock s2 = Unlocked"
    by auto
  have "\<forall>ops. snd (h BPF_OFFLOAD_VERIFIER_PREP pg) = Some ops \<longrightarrow>
          (\<forall>i j. \<exists>s3. bpf_prog_offload_verify_insn pg i j s2 = Inr (insn_hook ops pg i j, s3))"
    using b by (simp add: verify_insn_unfold)
  with a show "\<exists>d h. dev_by_index s (prog_ifindex attr) = Some d \<and> ndo_bpf (netdevs s d) = Some h \<and>
            (\<forall>ops. snd (h BPF_OFFLOAD_VERIFIER_PREP pg) = Some ops \<longrightarrow>
               (\<forall>i j. \<exists>s3. bpf_prog_offload_verify_insn pg i j s2
                              = Inr (insn_hook ops pg i j, s3)))"
    by blast
next
  fix p off i j
  assume "bpf_devs_lock t = Unlocked \<and> aux_offload (progs t pg) = Some p \<and>
       offloads t p = Some off \<and> netdev off = None"
  then show "\<exists>t'. bpf_prog_offload_verify_insn pg i j t = Inr (- ENODEV, t')"
    by (simp add: verify_insn_unfold)
qed

lemma prep_bound:
  "bpf_prog_offload_verifier_prep 0 bound_state = Inr (0, prepped_state)"
  by (simp add: prepped_state_def the_state_def prep_unfold bound_state_fields boot_state_def
      nic_ndo_def Let_def)

lemma prepped_state_fields:
  "offloads prepped_state = (\<lambda>_. None)(5 \<mapsto> \<lparr>prog = Some 0, netdev = Some 7,
      dev_ops = Some (Dev_ops (\<lambda>pg i j. i + 7)), dev_state = True\<rparr>)"
  "bpf_prog_offload_devs prepped_state = [5]"
  "rtnl_held prepped_state = False"
  "bpf_devs_lock prepped_state = Unlocked"
  "aux_offload (progs prepped_state 0) = Some 5"
  "netdevs prepped_state = netdevs boot_state"
  by (simp_all add: prepped_state_def the_state_def prep_unfold bound_state_fields boot_state_def
      nic_ndo_def Let_def fun_eq_iff)

lemma sweep_loop_head [simp]: "sweep_loop nd At_head tmp s = Some (Inr s)"
  by (subst sweep_loop.simps) simp

lemma sweep_loop_node:
  "sweep_loop nd (At_node p) tmp s =
     (case sweep_body nd p s of Inl f \<Rightarrow> Some (Inl f)
      | Inr s' \<Rightarrow> sweep_loop nd tmp (list_next tmp (bpf_prog_offload_devs s')) s')"
  by (subst sweep_loop.simps) simp

lemma unregister_unfold:
  "unregister_netdevice d s =
     (if rtnl_held s then Inl Deadlock
      else (case bpf_offload_notification NETDEV_UNREGISTER d
             ((emit EvRtnlLock (s\<lparr>rtnl_held := True\<rparr>))
                \<lparr>netdevs := (netdevs s)(d := (netdevs s d)\<lparr>reg_state := NETREG_UNREGISTERING\<rparr>)\<rparr>) of
              None \<Rightarrow> Inl Livelock
            | Some r \<Rightarrow> bind_f r (\<lambda>(_, s2). Inr (rtnl_unlock s2))))"
  by (simp add: unregister_netdevice_def rtnl_lock_def)

lemma uu_destroy_held:
  assumes "rtnl_held s" and "aux_offload (progs s pg) = Some p" and "offloads s p = Some off"
    and "\<forall>d. dev_state off \<and> netdev off = Some d \<longrightarrow> ndo_bpf (netdevs s d) \<noteq> None"
  shows "uu_bpf_prog_offload_destroy pg s =
     Inr (upd_offload p (\<lambda>off. off\<lparr>netdev := None\<rparr>)
           (list_del_init p
             (upd_offload p (\<lambda>off. off\<lparr>dev_state := False\<rparr>)
               (bpf_prog_free_id pg (s\<lparr>trace := trace s @ dispatch_events s pg off\<rparr>)))))"
  using assms
  by (auto simp: uu_bpf_prog_offload_destroy_def load_offload_def ndo_unfold dispatch_events_def
      Let_def emit_def WARN_ON_def WARN_def ENODEV_def case_prod_beta split: option.splits)

lemma removed_state_fields:
  "offloads removed_state = (\<lambda>_. None)(5 \<mapsto> \<lparr>prog = Some 0, netdev = None,
      dev_ops = Some (Dev_ops (\<lambda>pg i j. i + 7)), dev_state = False\<rparr>)"
  "bpf_prog_offload_devs removed_state = []"
  "rtnl_held removed_state = False"
  "bpf_devs_lock removed_state = Unlocked"
  "aux_offload (progs removed_state 0) = Some 5"
  by (simp_all add: removed_state_def the_state_def unregister_unfold bpf_offload_notification_def
      offload_sweep_def sweep_loop_node sweep_body_def pos_of_def
      prepped_state_fields boot_state_def uu_bpf_prog_offload_destroy_def ndo_unfold
      load_offload_def down_write_def nic_ndo_def Let_def fun_eq_iff)

theorem verify_insn_before_prep_counterexample:
  "bpf_prog_offload_init True (Some 5) 0 attr3 boot_state = Inr (0, bound_state) \<and>
   bpf_prog_offload_verify_insn 0 0 0 bound_state = Inl NullDeref"
  by (simp add: init_boot verify_insn_unfold bound_state_fields)

theorem verify_insn_verdict_witness:
  "bpf_prog_offload_init True (Some 5) 0 attr3 boot_state = Inr (0, bound_state) \<and>
   bpf_prog_offload_verifier_prep 0 bound_state = Inr (0, prepped_state) \<and>
   bpf_prog_offload_verify_insn 0 3 2 bound_state = Inl NullDeref \<and>
   map_sum id fst (bpf_prog_offload_verify_insn 0 3 2 prepped_state) = Inr 10 \<and>
   (bpf_devs_lock removed_state = Unlocked \<and> aux_offload (progs removed_state 0) = Some 5 \<and>
    map_option netdev (offloads removed_state 5) = Some None) \<and>
   map_sum id fst (bpf_prog_offload_verify_insn 0 3 2 removed_state) = Inr (- ENODEV)"
proof -
  note v = verify_insn_verdict [where c = True and alloc = "Some 5" and pg = 0 and attr = attr3
      and s = boot_state and ?s1.0 = bound_state and t = removed_state]
  have h: "dev_by_index boot_state (prog_ifindex attr3) = Some 7"
    "ndo_bpf (netdevs boot_state 7) = Some nic_ndo"
    "snd (nic_ndo BPF_OFFLOAD_VERIFIER_PREP 0) = Some (Dev_ops (\<lambda>pg i j. i + 7))"
    by (simp_all add: boot_state_def attr3_def nic_ndo_def)
  from v init_boot prep_bound have
    a: "bpf_prog_offload_verify_insn 0 3 2 bound_state = Inl NullDeref"
    and b: "\<exists>d h. dev_by_index boot_state (prog_ifindex attr3) = Some d \<and>
              ndo_bpf (netdevs boot_state d) = Some h \<and>
              (\<forall>ops. snd (h BPF_OFFLOAD_VERIFIER_PREP 0) = Some ops \<longrightarrow>
                 (\<forall>i j. \<exists>s3. bpf_prog_offload_verify_insn 0 i j prepped_state
                                = Inr (insn_hook ops 0 i j, s3)))"
    and c: "\<forall>p off. bpf_devs_lock removed_state = Unlocked \<and>
              aux_offload (progs removed_state 0) = Some p \<and>
              offloads removed_state p = Some off \<and> netdev off = None \<longrightarrow>
              (\<forall>i j. \<exists>t'. bpf_prog_offload_verify_insn 0 i j removed_state = Inr (- ENODEV, t'))"
    by blast+
  from b h have "\<forall>i j. \<exists>s3. bpf_prog_offload_verify_insn 0 i j prepped_state = Inr (i + 7, s3)"
    by auto
  then have "\<exists>s3. bpf_prog_offload_verify_insn 0 3 2 prepped_state = Inr (3 + 7, s3)" by blast
  then have b': "\<exists>s3. bpf_prog_offload_verify_insn 0 3 2 prepped_state = Inr (10, s3)" by simp
  from c have c': "\<exists>t'. bpf_prog_offload_verify_insn 0 3 2 removed_state = Inr (- ENODEV, t')"
    by (simp add: removed_state_fields)
  from b' have b'': "map_sum id fst (bpf_prog_offload_verify_insn 0 3 2 prepped_state) = Inr 10"
    by auto
  from c' have c'': "map_sum id fst (bpf_prog_offload_verify_insn 0 3 2 removed_state) = Inr (- ENODEV)"
    by auto
  from a b'' c'' init_boot prep_bound show ?thesis by (simp add: removed_state_fields)
qed

section \<open>The order of teardown in destroy\<close>

lemma dispatch_events_cong:
  "netdevs s' = netdevs s \<Longrightarrow> dispatch_events s' pg off = dispatch_events s pg off"
  by (auto simp: dispatch_events_def split: option.splits)

lemma uu_destroy_Inr_held:
  assumes "rtnl_held s" and "uu_bpf_prog_offload_destroy pg s = Inr s'"
  shows "\<exists>p off. aux_offload (progs s pg) = Some p \<and> offloads s p = Some off \<and>
           (\<forall>d. dev_state off \<and> netdev off = Some d \<longrightarrow> ndo_bpf (netdevs s d) \<noteq> None) \<and>
           trace s' = trace s @ dispatch_events s pg off @ [EvFreeId pg, EvListDel p]"
proof -
  from uu_destroy_Inr [OF assms(2)] obtain p off where
    a: "aux_offload (progs s pg) = Some p" "offloads s p = Some off" by blast
  have h: "\<forall>d. dev_state off \<and> netdev off = Some d \<longrightarrow> ndo_bpf (netdevs s d) \<noteq> None"
  proof (intro allI impI)
    fix d assume d: "dev_state off \<and> netdev off = Some d"
    show "ndo_bpf (netdevs s d) \<noteq> None"
    proof
      assume "ndo_bpf (netdevs s d) = None"
      with a d have "uu_bpf_prog_offload_destroy pg s = Inl NullDeref"
        by (simp add: uu_bpf_prog_offload_destroy_def load_offload_def ndo_unfold)
      with assms(2) show False by simp
    qed
  qed
  from uu_destroy_held [OF assms(1) a h] assms(2)
  have "trace s' = trace s @ dispatch_events s pg off @ [EvFreeId pg, EvListDel p]"
    by auto
  with a h show ?thesis by blast
qed

lemma destroy_ok:
  assumes "bpf_prog_offload_destroy pg s = Inr s'"
  shows "\<exists>p off. aux_offload (progs s pg) = Some p \<and> offloads s p = Some off \<and>
           \<not> rtnl_held s \<and> bpf_devs_lock s = Unlocked \<and>
           trace s' = trace s @ [EvRtnlLock, EvDownWrite] @ dispatch_events s pg off
                        @ [EvFreeId pg, EvListDel p, EvUpWrite, EvRtnlUnlock, EvKfree p] \<and>
           offloads s' = (offloads s)(p := None) \<and>
           bpf_prog_offload_devs s' = removeAll p (bpf_prog_offload_devs s) \<and>
           \<not> rtnl_held s' \<and> bpf_devs_lock s' = Unlocked \<and>
           (\<forall>q. aux_offload (progs s' q) = aux_offload (progs s q))"
proof -
  let ?s2 = "emit EvDownWrite (emit EvRtnlLock (s\<lparr>rtnl_held := True\<rparr>)\<lparr>bpf_devs_lock := WriteLocked\<rparr>)"
  from assms obtain s3 where l: "\<not> rtnl_held s" "bpf_devs_lock s = Unlocked"
    and d: "uu_bpf_prog_offload_destroy pg ?s2 = Inr s3"
    and k: "kfree (aux_offload (progs s pg)) (rtnl_unlock (up_write s3)) = Inr s'"
    unfolding destroy_unfold by blast
  have "rtnl_held ?s2" by simp
  from uu_destroy_Inr_held [OF this d] obtain p off where
    a2: "aux_offload (progs ?s2 pg) = Some p" "offloads ?s2 p = Some off"
    and tr: "trace s3 = trace ?s2 @ dispatch_events ?s2 pg off @ [EvFreeId pg, EvListDel p]"
    by blast
  from a2 have a: "aux_offload (progs s pg) = Some p" "offloads s p = Some off" by simp_all
  have de: "dispatch_events ?s2 pg off = dispatch_events s pg off"
    by (rule dispatch_events_cong) simp
  from uu_destroy_Inr [OF d] a have
    f: "offloads s3 = (offloads s)(p \<mapsto> off\<lparr>dev_state := False, netdev := None\<rparr>)"
       "bpf_prog_offload_devs s3 = removeAll p (bpf_prog_offload_devs s)"
       "\<forall>q. aux_offload (progs s3 q) = aux_offload (progs s q)"
    by auto
  from k a f have s': "s' = emit (EvKfree p) ((rtnl_unlock (up_write s3))\<lparr>offloads := (offloads s3)(p := None)\<rparr>)"
    by (simp add: kfree_eq_Inr)
  have "trace s' = trace s @ [EvRtnlLock, EvDownWrite] @ dispatch_events s pg off
                        @ [EvFreeId pg, EvListDel p, EvUpWrite, EvRtnlUnlock, EvKfree p]"
    using s' tr de by simp
  moreover have "offloads s' = (offloads s)(p := None)"
    using s' f by (simp add: fun_eq_iff)
  moreover have "bpf_prog_offload_devs s' = removeAll p (bpf_prog_offload_devs s)"
    using s' f by simp
  moreover have "\<not> rtnl_held s'" "bpf_devs_lock s' = Unlocked"
    "\<forall>q. aux_offload (progs s' q) = aux_offload (progs s q)"
    using s' f by simp_all
  ultimately show ?thesis using a l by blast
qed

lemma destroy_succeeds:
  assumes "\<not> rtnl_held s" and "bpf_devs_lock s = Unlocked"
    and "aux_offload (progs s pg) = Some p" and "offloads s p = Some off"
    and "\<forall>d. dev_state off \<and> netdev off = Some d \<longrightarrow> ndo_bpf (netdevs s d) \<noteq> None"
  shows "\<exists>s'. bpf_prog_offload_destroy pg s = Inr s'"
proof -
  let ?s2 = "emit EvDownWrite (emit EvRtnlLock (s\<lparr>rtnl_held := True\<rparr>)\<lparr>bpf_devs_lock := WriteLocked\<rparr>)"
  have "uu_bpf_prog_offload_destroy pg ?s2 =
     Inr (upd_offload p (\<lambda>off. off\<lparr>netdev := None\<rparr>)
           (list_del_init p
             (upd_offload p (\<lambda>off. off\<lparr>dev_state := False\<rparr>)
               (bpf_prog_free_id pg (?s2\<lparr>trace := trace ?s2 @ dispatch_events ?s2 pg off\<rparr>)))))"
    using assms by (intro uu_destroy_held) simp_all
  with assms show ?thesis
    by (simp add: bpf_prog_offload_destroy_def rtnl_lock_def down_write_def Let_def kfree_def)
qed

lemma emitted_append: "trace s' = trace s @ evs \<Longrightarrow> emitted s s' = evs"
  by (simp add: emitted_def)

lemma precedes_append:
  "a \<in> set xs \<Longrightarrow> b \<in> set ys \<Longrightarrow> precedes a b (xs @ ys)"
  by (simp add: precedes_def dropWhile_append1)

lemma dispatch_events_kinds:
  "e \<in> set (dispatch_events s pg off) \<Longrightarrow>
     (\<exists>d r. e = EvNdo d BPF_OFFLOAD_DESTROY pg r) \<or> e = EvWarn ''WARN_ON''"
  by (auto simp: dispatch_events_def split: if_splits option.split_asm)

lemma not_precedes_append:
  "a \<notin> set xs \<Longrightarrow> b \<notin> set ys \<Longrightarrow> \<not> precedes a b (xs @ ys)"
proof -
  assume a: "a \<notin> set xs" and b: "b \<notin> set ys"
  from a have "dropWhile (\<lambda>e. e \<noteq> a) (xs @ ys) = dropWhile (\<lambda>e. e \<noteq> a) ys"
    by (intro dropWhile_append2) auto
  with b show ?thesis by (auto simp: precedes_def dest: set_dropWhileD)
qed

text \<open>
  C9, as the code has it. \<open>bpf_prog_offload_destroy\<close> takes the topology lock and the
  registry lock, sends \<open>DESTROY\<close> to the driver if the descriptor is active, and only then
  invalidates the program's identifier; it unlinks the descriptor, releases both locks and
  frees the descriptor, once, as its last step.
\<close>

theorem destroy_order:
  assumes "bpf_prog_offload_destroy pg s = Inr s'"
  shows "\<exists>p off. aux_offload (progs s pg) = Some p \<and> offloads s p = Some off \<and>
           emitted s s' = [EvRtnlLock, EvDownWrite] @ dispatch_events s pg off
                            @ [EvFreeId pg, EvListDel p, EvUpWrite, EvRtnlUnlock, EvKfree p] \<and>
           (\<forall>e \<in> set (emitted s s'). is_ndo e \<longrightarrow>
              precedes e (EvFreeId pg) (emitted s s') \<and>
              \<not> precedes (EvFreeId pg) e (emitted s s')) \<and>
           precedes (EvListDel p) (EvKfree p) (emitted s s') \<and>
           count_list (emitted s s') (EvKfree p) = 1 \<and>
           last (emitted s s') = EvKfree p \<and>
           offloads s' p = None \<and> p \<notin> set (bpf_prog_offload_devs s')"
proof -
  from destroy_ok [OF assms] obtain p off where
    a: "aux_offload (progs s pg) = Some p" "offloads s p = Some off"
    and tr: "trace s' = trace s @ [EvRtnlLock, EvDownWrite] @ dispatch_events s pg off
                        @ [EvFreeId pg, EvListDel p, EvUpWrite, EvRtnlUnlock, EvKfree p]"
    and f: "offloads s' = (offloads s)(p := None)"
      "bpf_prog_offload_devs s' = removeAll p (bpf_prog_offload_devs s)"
    by blast
  let ?d = "dispatch_events s pg off"
  let ?pre = "[EvRtnlLock, EvDownWrite] @ ?d"
  let ?post = "[EvFreeId pg, EvListDel p, EvUpWrite, EvRtnlUnlock, EvKfree p]"
  have em: "emitted s s' = ?pre @ ?post"
    using emitted_append [OF tr] by simp
  have kinds: "\<And>e. e \<in> set ?d \<Longrightarrow> e \<noteq> EvFreeId pg \<and> e \<noteq> EvKfree p"
    by (auto dest: dispatch_events_kinds)
  have ndo: "\<forall>e \<in> set (emitted s s'). is_ndo e \<longrightarrow>
              precedes e (EvFreeId pg) (emitted s s') \<and>
              \<not> precedes (EvFreeId pg) e (emitted s s')"
  proof (intro ballI impI)
    fix e assume e: "e \<in> set (emitted s s')" "is_ndo e"
    then have ed: "e \<in> set ?pre" unfolding em by auto
    have "precedes e (EvFreeId pg) (?pre @ ?post)"
      by (rule precedes_append [OF ed]) simp
    moreover have "EvFreeId pg \<notin> set ?pre" using kinds by auto
    then have "\<not> precedes (EvFreeId pg) e (?pre @ ?post)"
      using e(2) by (intro not_precedes_append) auto
    ultimately show "precedes e (EvFreeId pg) (emitted s s') \<and>
              \<not> precedes (EvFreeId pg) e (emitted s s')"
      unfolding em by blast
  qed
  have ld: "precedes (EvListDel p) (EvKfree p) (emitted s s')"
  proof -
    have "precedes (EvListDel p) (EvKfree p)
            ((?pre @ [EvFreeId pg, EvListDel p]) @ [EvUpWrite, EvRtnlUnlock, EvKfree p])"
      by (rule precedes_append) simp_all
    then show ?thesis unfolding em by simp
  qed
  have "count_list ?d (EvKfree p) = 0"
    using kinds by (auto simp: count_list_0_iff)
  then have cnt: "count_list (emitted s s') (EvKfree p) = 1"
    unfolding em by simp
  have lst: "last (emitted s s') = EvKfree p" unfolding em by simp
  from a em ndo ld cnt lst f show ?thesis by auto
qed

lemma destroy_prepped:
  "bpf_prog_offload_destroy 0 prepped_state = Inr destroyed_state"
proof -
  have "\<exists>s'. bpf_prog_offload_destroy 0 prepped_state = Inr s'"
    by (rule destroy_succeeds [where p = 5]) (simp_all add: prepped_state_fields boot_state_def)
  then show ?thesis by (auto simp: destroyed_state_def the_state_def)
qed

lemma dispatch_prepped:
  "dispatch_events prepped_state 0
     \<lparr>prog = Some 0, netdev = Some 7, dev_ops = Some (Dev_ops (\<lambda>pg i j. i + 7)), dev_state = True\<rparr>
   = [EvNdo 7 BPF_OFFLOAD_DESTROY 0 0]"
  by (simp add: dispatch_events_def prepped_state_fields boot_state_def nic_ndo_def)

lemma emitted_destroy_prepped:
  "emitted prepped_state destroyed_state =
     [EvRtnlLock, EvDownWrite, EvNdo 7 BPF_OFFLOAD_DESTROY 0 0, EvFreeId 0, EvListDel 5,
      EvUpWrite, EvRtnlUnlock, EvKfree 5]"
  using destroy_ok [OF destroy_prepped]
  by (auto simp: prepped_state_fields dispatch_prepped intro!: emitted_append)

lemma destroyed_state_fields:
  "offloads destroyed_state = (\<lambda>_. None)"
  "bpf_prog_offload_devs destroyed_state = []"
  "rtnl_held destroyed_state = False"
  "bpf_devs_lock destroyed_state = Unlocked"
  "aux_offload (progs destroyed_state 0) = Some 5"
  using destroy_ok [OF destroy_prepped]
  by (auto simp: prepped_state_fields)

theorem destroy_order_counterexample:
  "bpf_prog_offload_destroy 0 prepped_state = Inr destroyed_state \<and>
   precedes (EvNdo 7 BPF_OFFLOAD_DESTROY 0 0) (EvFreeId 0) (emitted prepped_state destroyed_state) \<and>
   \<not> precedes (EvFreeId 0) (EvNdo 7 BPF_OFFLOAD_DESTROY 0 0) (emitted prepped_state destroyed_state)"
  by (simp add: destroy_prepped emitted_destroy_prepped precedes_def)

theorem destroy_order_witness:
  "bpf_prog_offload_destroy 0 prepped_state = Inr destroyed_state \<and>
   emitted prepped_state destroyed_state =
     [EvRtnlLock, EvDownWrite, EvNdo 7 BPF_OFFLOAD_DESTROY 0 0, EvFreeId 0, EvListDel 5,
      EvUpWrite, EvRtnlUnlock, EvKfree 5] \<and>
   precedes (EvListDel 5) (EvKfree 5) (emitted prepped_state destroyed_state) \<and>
   count_list (emitted prepped_state destroyed_state) (EvKfree 5) = 1 \<and>
   offloads destroyed_state 5 = None \<and> 5 \<notin> set (bpf_prog_offload_devs destroyed_state)"
  using destroy_order [OF destroy_prepped]
  by (auto simp: prepped_state_fields dispatch_prepped destroy_prepped)

section \<open>Teardown after teardown\<close>

lemma dispatch_events_inactive: "\<not> dev_state off \<Longrightarrow> dispatch_events s pg off = []"
  by (simp add: dispatch_events_def)

lemma uu_destroy_torn:
  assumes "uu_bpf_prog_offload_destroy pg s0 = Inr s"
  shows "torn_down pg s"
  using uu_destroy_Inr [OF assms] by (auto simp: torn_down_def)

lemma torn_down_cases:
  "torn_down pg s \<longleftrightarrow>
     (\<exists>p off. aux_offload (progs s pg) = Some p \<and> offloads s p = Some off \<and>
        netdev off = None \<and> \<not> dev_state off \<and> p \<notin> set (bpf_prog_offload_devs s))"
  by (auto simp: torn_down_def split: option.splits)

lemma uu_destroy_again:
  assumes "torn_down pg t"
  shows "\<exists>t'. uu_bpf_prog_offload_destroy pg t = Inr t' \<and> torn_down pg t' \<and>
           bpf_prog_offload_devs t' = bpf_prog_offload_devs t \<and> offloads t' = offloads t \<and>
           filter is_ndo (emitted t t') = []"
proof -
  from assms obtain p off where
    a: "aux_offload (progs t pg) = Some p" "offloads t p = Some off"
       "netdev off = None" "\<not> dev_state off" "p \<notin> set (bpf_prog_offload_devs t)"
    unfolding torn_down_cases by blast
  let ?t' = "upd_offload p (\<lambda>off. off\<lparr>netdev := None\<rparr>)
           (list_del_init p
             (upd_offload p (\<lambda>off. off\<lparr>dev_state := False\<rparr>)
               (bpf_prog_free_id pg t)))"
  have r: "uu_bpf_prog_offload_destroy pg t = Inr ?t'"
    using a by (simp add: uu_bpf_prog_offload_destroy_def load_offload_def Let_def)
  have "offloads ?t' = offloads t" using a by (auto simp: fun_eq_iff)
  moreover have "bpf_prog_offload_devs ?t' = bpf_prog_offload_devs t" using a by simp
  moreover have "emitted t ?t' = [EvFreeId pg, EvListDel p]"
    by (rule emitted_append) simp
  moreover have "torn_down pg ?t'" using r by (rule uu_destroy_torn)
  ultimately show ?thesis using r by simp
qed

lemma destroy_torn:
  assumes "torn_down pg u" and "\<not> rtnl_held u" and "bpf_devs_lock u = Unlocked"
  shows "\<exists>u'. bpf_prog_offload_destroy pg u = Inr u' \<and>
           bpf_prog_offload_devs u' = bpf_prog_offload_devs u \<and>
           filter is_ndo (emitted u u') = []"
proof -
  from assms(1) obtain p off where
    a: "aux_offload (progs u pg) = Some p" "offloads u p = Some off"
       "netdev off = None" "\<not> dev_state off" "p \<notin> set (bpf_prog_offload_devs u)"
    unfolding torn_down_cases by blast
  from a have "\<forall>d. dev_state off \<and> netdev off = Some d \<longrightarrow> ndo_bpf (netdevs u d) \<noteq> None"
    by simp
  from destroy_succeeds [OF assms(2,3) a(1,2) this] obtain u' where
    r: "bpf_prog_offload_destroy pg u = Inr u'" by blast
  from destroy_ok [OF r] a have
    tr: "trace u' = trace u @ [EvRtnlLock, EvDownWrite] @ dispatch_events u pg off
                        @ [EvFreeId pg, EvListDel p, EvUpWrite, EvRtnlUnlock, EvKfree p]"
    and l: "bpf_prog_offload_devs u' = removeAll p (bpf_prog_offload_devs u)"
    by auto
  from emitted_append [OF tr] a(4) have "filter is_ndo (emitted u u') = []"
    by (simp add: dispatch_events_inactive)
  with r l a(5) show ?thesis by simp
qed

text \<open>
  C3, as the code has it. The teardown \<open>__bpf_prog_offload_destroy\<close>, which the
  device-removal sweep runs, leaves the descriptor allocated, off the list, with no
  device and inactive. From such a state a further teardown returns, sends nothing to
  the driver and leaves the list and the descriptors as they are; and an explicit
  \<open>bpf_prog_offload_destroy\<close> returns, sends nothing to the driver and leaves the list as
  it is.
\<close>

theorem teardown_idempotent:
  "(uu_bpf_prog_offload_destroy pg s0 = Inr s \<longrightarrow> torn_down pg s) \<and>
   (torn_down pg t \<longrightarrow>
      (\<exists>t'. uu_bpf_prog_offload_destroy pg t = Inr t' \<and> torn_down pg t' \<and>
         bpf_prog_offload_devs t' = bpf_prog_offload_devs t \<and> offloads t' = offloads t \<and>
         filter is_ndo (emitted t t') = [])) \<and>
   (torn_down pg u \<and> \<not> rtnl_held u \<and> bpf_devs_lock u = Unlocked \<longrightarrow>
      (\<exists>u'. bpf_prog_offload_destroy pg u = Inr u' \<and>
         bpf_prog_offload_devs u' = bpf_prog_offload_devs u \<and>
         filter is_ndo (emitted u u') = []))"
  using uu_destroy_torn [of pg s0 s] uu_destroy_again [of pg t] destroy_torn [of pg u]
  by blast

theorem destroy_twice_counterexample:
  "bpf_prog_offload_destroy 0 prepped_state = Inr destroyed_state \<and>
   bpf_prog_offload_destroy 0 destroyed_state = Inl UseAfterFree"
proof
  show "bpf_prog_offload_destroy 0 prepped_state = Inr destroyed_state"
    by (rule destroy_prepped)
  show "bpf_prog_offload_destroy 0 destroyed_state = Inl UseAfterFree"
    by (simp add: bpf_prog_offload_destroy_def rtnl_lock_def down_write_def
        uu_bpf_prog_offload_destroy_def load_offload_def destroyed_state_fields Let_def)
qed

lemma torn_prepped:
  "uu_bpf_prog_offload_destroy 0 (prepped_state\<lparr>rtnl_held := True, bpf_devs_lock := WriteLocked\<rparr>)
     = Inr torn_state"
proof -
  have "\<exists>s'. uu_bpf_prog_offload_destroy 0
          (prepped_state\<lparr>rtnl_held := True, bpf_devs_lock := WriteLocked\<rparr>) = Inr s'"
    by (subst uu_destroy_held [where p = 5])
       (simp_all add: prepped_state_fields boot_state_def)
  then show ?thesis by (auto simp: torn_state_def the_state_def)
qed

theorem teardown_idempotent_witness:
  "uu_bpf_prog_offload_destroy 0 (prepped_state\<lparr>rtnl_held := True, bpf_devs_lock := WriteLocked\<rparr>)
     = Inr torn_state \<and> torn_down 0 torn_state \<and>
   torn_down 0 removed_state \<and> \<not> rtnl_held removed_state \<and>
   bpf_devs_lock removed_state = Unlocked \<and>
   (\<exists>t'. uu_bpf_prog_offload_destroy 0 removed_state = Inr t' \<and>
      bpf_prog_offload_devs t' = [] \<and> filter is_ndo (emitted removed_state t') = []) \<and>
   (\<exists>u'. bpf_prog_offload_destroy 0 removed_state = Inr u' \<and>
      bpf_prog_offload_devs u' = [] \<and> filter is_ndo (emitted removed_state u') = [])"
proof -
  note t = teardown_idempotent [where pg = 0
      and ?s0.0 = "prepped_state\<lparr>rtnl_held := True, bpf_devs_lock := WriteLocked\<rparr>"
      and s = torn_state and t = removed_state and u = removed_state]
  have r: "torn_down 0 removed_state"
    by (simp add: torn_down_def removed_state_fields)
  from t torn_prepped r show ?thesis
    by (auto simp: removed_state_fields)
qed

section \<open>The guard entry point\<close>

lemma translate_Inr:
  assumes "bpf_prog_offload_translate pg s = Inr (r, s')"
  shows "progs s' = progs s"
  using assms
  by (auto simp: bpf_prog_offload_translate_def bind_f_eq_Inr lock_eq_Inr dest!: ndo_frame)

text \<open>
  C8. When \<open>bpf_prog_offload_compile\<close> returns, whatever the driver answered to
  \<open>TRANSLATE\<close>, the program's \<open>bpf_func\<close> is \<open>bpf_prog_warn_on_exec\<close>; a call through it
  logs the warning, returns 0 and does nothing else: the host does not execute the
  program.
\<close>

theorem compile_installs_guard:
  assumes "bpf_prog_offload_compile pg s = Inr (r, s')"
  shows "bpf_func (progs s' pg) = BPF_PROG_WARN_ON_EXEC \<and>
         (\<forall>t. call_bpf_func (bpf_func (progs s' pg)) pg t
                = (0, emit (EvWarn ''attempt to execute device eBPF program on the host!'') t))"
proof -
  from assms have "progs s' = (progs s)(pg := (progs s pg)\<lparr>bpf_func := BPF_PROG_WARN_ON_EXEC\<rparr>)"
    by (auto simp: bpf_prog_offload_compile_def dest!: translate_Inr)
  then show ?thesis
    by (simp add: call_bpf_func_def bpf_prog_warn_on_exec_def WARN_def)
qed

lemma compile_prepped:
  "bpf_prog_offload_compile 0 prepped_state = Inr (0, compiled_state)"
proof -
  have "\<exists>s'. bpf_prog_offload_compile 0 prepped_state = Inr (0, s')"
    by (simp add: bpf_prog_offload_compile_def bpf_prog_offload_translate_def rtnl_lock_def
        ndo_unfold prepped_state_fields boot_state_def nic_ndo_def)
  then show ?thesis by (auto simp: compiled_state_def the_state_def)
qed

theorem compile_installs_guard_witness:
  "bpf_prog_offload_compile 0 prepped_state = Inr (0, compiled_state) \<and>
   bpf_func (progs prepped_state 0) = BPF_FUNC_HOST 0 \<and>
   bpf_func (progs compiled_state 0) = BPF_PROG_WARN_ON_EXEC \<and>
   call_bpf_func (bpf_func (progs compiled_state 0)) 0 boot_state
     = (0, emit (EvWarn ''attempt to execute device eBPF program on the host!'') boot_state)"
proof -
  have "bpf_func (progs prepped_state 0) = BPF_FUNC_HOST 0"
    using prep_ok [OF prep_bound] init_ok [OF init_boot]
    by (auto simp: boot_state_def)
  with compile_installs_guard [OF compile_prepped] compile_prepped show ?thesis by blast
qed

section \<open>The info report\<close>

lemma info_fill_ns_unfold:
  "bpf_prog_offload_info_fill_ns pg info s =
     (if rtnl_held s \<or> bpf_devs_lock s \<noteq> Unlocked then Inl Deadlock
      else
        (let s2 = emit EvDownRead
                    ((emit EvRtnlLock (s\<lparr>rtnl_held := True\<rparr>))\<lparr>bpf_devs_lock := ReadLocked\<rparr>)
         in case aux_offload (progs s pg) of
              None \<Rightarrow> Inr ((None, info\<lparr>info_ifindex := 0\<rparr>), rtnl_unlock (up_read s2))
            | Some p \<Rightarrow>
                (case offloads s p of
                   None \<Rightarrow> Inl UseAfterFree
                 | Some off \<Rightarrow>
                     (case netdev off of
                        None \<Rightarrow> Inl NullDeref
                      | Some d \<Rightarrow>
                          Inr ((Some (nd_net (netdevs s d)),
                                info\<lparr>info_ifindex := ifindex (netdevs s d)\<rparr>),
                               rtnl_unlock (up_read (emit (EvGetNet (nd_net (netdevs s d))) s2)))))))"
  by (simp add: bpf_prog_offload_info_fill_ns_def rtnl_lock_def down_read_def load_offload_def
      Let_def split: option.splits)

lemma info_fill_unbound_ret:
  assumes "aux_offload (progs s pg) = None" and "\<not> rtnl_held s" and "bpf_devs_lock s = Unlocked"
  shows "map_sum id fst (bpf_prog_offload_info_fill fs info pg s)
           = Inr (- ENODEV, info\<lparr>info_ifindex := 0\<rparr>)"
  using assms
  by (simp add: bpf_prog_offload_info_fill_def ns_get_path_cb_def info_fill_ns_unfold Let_def)

lemma info_fill_error_bound:
  assumes "map_sum id fst (bpf_prog_offload_info_fill fs info pg t) = Inr (r, info')"
    and "r \<noteq> 0" and "r \<noteq> - ENODEV"
  shows "\<exists>p off d. aux_offload (progs t pg) = Some p \<and> offloads t p = Some off \<and>
           netdev off = Some d \<and> ifindex (netdevs t d) \<noteq> 0 \<and>
           ns_path fs (nd_net (netdevs t d)) = Inl r"
  using assms
  by (auto simp: bpf_prog_offload_info_fill_def ns_get_path_cb_def info_fill_ns_unfold Let_def
      split: if_splits option.split_asm sum.split_asm prod.split_asm)

text \<open>
  C6, as the code has it, for a program that has no descriptor (\<open>prog->aux->offload\<close> is
  NULL): \<open>bpf_prog_offload_info_fill\<close>, called with neither lock held, returns
  \<open>-ENODEV\<close>, with \<open>ifindex\<close> set to 0 and the rest of the record as the caller passed
  it. A result that is neither 0 nor \<open>-ENODEV\<close> is the error of the namespace path
  resolution for the device the program is bound to, whose interface index is not 0.
  A program whose descriptor lost its device in the sweep is not such a program: it still
  has its descriptor, and this statement does not cover it.
\<close>

theorem info_fill_unbound:
  "(aux_offload (progs s pg) = None \<and> \<not> rtnl_held s \<and> bpf_devs_lock s = Unlocked \<longrightarrow>
      map_sum id fst (bpf_prog_offload_info_fill fs info pg s)
        = Inr (- ENODEV, info\<lparr>info_ifindex := 0\<rparr>)) \<and>
   (map_sum id fst (bpf_prog_offload_info_fill fs' info pg t) = Inr (r, info') \<and>
      r \<noteq> 0 \<and> r \<noteq> - ENODEV \<longrightarrow>
      (\<exists>p off d. aux_offload (progs t pg) = Some p \<and> offloads t p = Some off \<and>
         netdev off = Some d \<and> ifindex (netdevs t d) \<noteq> 0 \<and>
         ns_path fs' (nd_net (netdevs t d)) = Inl r))"
  using info_fill_unbound_ret [of s pg fs info] info_fill_error_bound [of fs' info pg t r info']
  by blast

theorem info_fill_unbound_counterexample:
  "aux_offload (progs boot_state 0) = None \<and>
   map_sum id fst (bpf_prog_offload_info_fill fs0 info0 0 boot_state)
     = Inr (- 19, info0\<lparr>info_ifindex := 0\<rparr>)"
  by (simp add: bpf_prog_offload_info_fill_def ns_get_path_cb_def info_fill_ns_unfold Let_def
      boot_state_def ENODEV_def)

lemma info_fill_fail_prepped:
  "map_sum id fst (bpf_prog_offload_info_fill fs_fail info0 0 prepped_state)
     = Inr (- 13, info0\<lparr>info_ifindex := 3\<rparr>)"
  by (simp add: bpf_prog_offload_info_fill_def ns_get_path_cb_def info_fill_ns_unfold Let_def
      prepped_state_fields boot_state_def fs_fail_def)

theorem info_fill_unbound_witness:
  "(aux_offload (progs boot_state 0) = None \<and> \<not> rtnl_held boot_state \<and>
    bpf_devs_lock boot_state = Unlocked) \<and>
   map_sum id fst (bpf_prog_offload_info_fill fs0 info0 0 boot_state)
     = Inr (- ENODEV, info0\<lparr>info_ifindex := 0\<rparr>) \<and>
   map_sum id fst (bpf_prog_offload_info_fill fs_fail info0 0 prepped_state)
     = Inr (- 13, info0\<lparr>info_ifindex := 3\<rparr>) \<and>
   (- 13 \<noteq> (0::int) \<and> - 13 \<noteq> - ENODEV) \<and>
   map_option netdev (offloads prepped_state 5) = Some (Some 7) \<and>
   ifindex (netdevs prepped_state 7) \<noteq> 0 \<and>
   ns_path fs_fail (nd_net (netdevs prepped_state 7)) = Inl (- 13)"
proof -
  note w = info_fill_unbound [where s = boot_state and pg = 0 and fs = fs0 and info = info0
      and fs' = fs_fail and t = prepped_state and r = "- 13" and info' = "info0\<lparr>info_ifindex := 3\<rparr>"]
  have a: "aux_offload (progs boot_state 0) = None \<and> \<not> rtnl_held boot_state \<and>
    bpf_devs_lock boot_state = Unlocked" by (simp add: boot_state_def)
  have b: "- 13 \<noteq> (0::int) \<and> - 13 \<noteq> - ENODEV" by (simp add: ENODEV_def)
  from w a b info_fill_fail_prepped show ?thesis
    by (auto simp: prepped_state_fields)
qed

lemma unregister_prepped: "unregister_netdevice 7 prepped_state = Inr removed_state"
proof -
  have "\<exists>s'. unregister_netdevice 7 prepped_state = Inr s'"
    by (simp add: unregister_unfold bpf_offload_notification_def
      offload_sweep_def sweep_loop_node sweep_body_def pos_of_def
      prepped_state_fields boot_state_def uu_bpf_prog_offload_destroy_def ndo_unfold
      load_offload_def down_write_def nic_ndo_def Let_def)
  then show ?thesis by (auto simp: removed_state_def the_state_def)
qed

text \<open>
  C5 at the failing input: program 0 is bound to device 7 and prepared, and device 7 is
  unregistered. The sweep leaves the descriptor allocated with \<open>netdev\<close> NULL.
  \<open>bpf_prog_offload_verify_insn\<close> then returns \<open>-ENODEV\<close>, but
  \<open>bpf_prog_offload_info_fill\<close> reads \<open>aux->offload->netdev->ifindex\<close> through the NULL
  \<open>netdev\<close>.
\<close>

theorem info_fill_after_removal:
  "unregister_netdevice 7 prepped_state = Inr removed_state \<and>
   map_sum id fst (bpf_prog_offload_verify_insn 0 0 0 removed_state) = Inr (- ENODEV) \<and>
   bpf_prog_offload_info_fill fs0 info0 0 removed_state = Inl NullDeref"
  by (simp add: unregister_prepped verify_insn_unfold bpf_prog_offload_info_fill_def
      ns_get_path_cb_def info_fill_ns_unfold Let_def removed_state_fields)

section \<open>The device-removal sweep\<close>

lemma list_next_mid:
  assumes "distinct (pre @ p # rest)"
  shows "list_next (At_node p) (pre @ p # rest) = pos_of rest"
proof -
  from assms have "\<And>x. x \<in> set pre \<Longrightarrow> x \<noteq> p" by auto
  then have "dropWhile (\<lambda>x. x \<noteq> p) (pre @ p # rest) = dropWhile (\<lambda>x. x \<noteq> p) (p # rest)"
    by (rule dropWhile_append2)
  then show ?thesis by simp
qed

lemma sweep_body_other:
  assumes "offloads s p = Some off" and "netdev off \<noteq> Some nd"
  shows "sweep_body nd p s = Inr s"
  using assms by (simp add: sweep_body_def load_offload_def)

lemma sweep_body_bound:
  assumes "offloads s p = Some off" and "netdev off = Some nd" and "prog off = Some pg"
    and "aux_offload (progs s pg) = Some p" and "rtnl_held s"
    and "dev_state off \<longrightarrow> ndo_bpf (netdevs s nd) \<noteq> None"
  shows "sweep_body nd p s =
           Inr (upd_offload p (\<lambda>off. off\<lparr>netdev := None\<rparr>)
               (list_del_init p
                 (upd_offload p (\<lambda>off. off\<lparr>dev_state := False\<rparr>)
                   (bpf_prog_free_id pg (s\<lparr>trace := trace s @ dispatch_events s pg off\<rparr>)))))"
proof -
  have "\<forall>d. dev_state off \<and> netdev off = Some d \<longrightarrow> ndo_bpf (netdevs s d) \<noteq> None"
    using assms(2,6) by auto
  from uu_destroy_held [OF assms(5,4,1) this] assms(1-4) show ?thesis
    by (simp add: sweep_body_def load_offload_def)
qed

lemma sweep_ready_Cons:
  "sweep_ready nd (p # ps) s \<longleftrightarrow>
     (\<exists>off pg. offloads s p = Some off \<and> prog off = Some pg \<and>
        aux_offload (progs s pg) = Some p \<and>
        (netdev off = Some nd \<and> dev_state off \<longrightarrow> ndo_bpf (netdevs s nd) \<noteq> None)) \<and>
     sweep_ready nd ps s"
  by (auto simp: sweep_ready_def split: option.splits)

lemma sweep_ready_cong:
  assumes "\<forall>p \<in> set ps. offloads s' p = offloads s p"
    and "\<forall>q. aux_offload (progs s' q) = aux_offload (progs s q)"
    and "netdevs s' = netdevs s"
  shows "sweep_ready nd ps s' = sweep_ready nd ps s"
  unfolding sweep_ready_def using assms
  by (intro ball_cong refl) (auto split: option.splits)

lemma sweep_events_cong:
  assumes "offloads s' p = offloads s p" and "netdevs s' = netdevs s"
  shows "sweep_events s' nd p = sweep_events s nd p"
  using assms
  by (auto simp: sweep_events_def dispatch_events_cong [OF assms(2)] split: option.splits)

lemma bound_to_cong:
  "offloads s' p = offloads s p \<Longrightarrow> bound_to s' nd p = bound_to s nd p"
  by (simp add: bound_to_def)

text \<open>
  The loop on a list whose nodes are ready, from any node on: \<open>kept\<close> is the part of
  the list the loop has passed, \<open>ps\<close> the part from the cursor on, and the saved cursor
  is the node after the cursor. The loop returns, and it has torn down the descriptors of
  \<open>ps\<close> that were bound to the device, and no other.
\<close>

lemma sweep_spec:
  assumes "distinct (kept @ ps)" and "bpf_prog_offload_devs s = kept @ ps"
    and "sweep_ready nd ps s" and "rtnl_held s"
    and "ps \<noteq> [] \<longrightarrow> tmp = pos_of (tl ps)"
  shows "\<exists>s'. sweep_loop nd (pos_of ps) tmp s = Some (Inr s') \<and>
           trace s' = trace s @ concat (map (sweep_events s nd) ps) \<and>
           (\<forall>p. offloads s' p = (if p \<in> set ps then map_option (swept nd) (offloads s p)
                                 else offloads s p)) \<and>
           bpf_prog_offload_devs s' = kept @ filter (\<lambda>p. \<not> bound_to s nd p) ps \<and>
           netdevs s' = netdevs s \<and> rtnl_held s' \<and> bpf_devs_lock s' = bpf_devs_lock s \<and>
           (\<forall>q. aux_offload (progs s' q) = aux_offload (progs s q))"
  using assms
proof (induction ps arbitrary: s kept tmp)
  case Nil
  then show ?case by (simp add: pos_of_def)
next
  case (Cons p ps)
  from Cons.prems(3) obtain off pg where
    a: "offloads s p = Some off" "prog off = Some pg" "aux_offload (progs s pg) = Some p"
       "netdev off = Some nd \<and> dev_state off \<longrightarrow> ndo_bpf (netdevs s nd) \<noteq> None"
    and rest: "sweep_ready nd ps s"
    unfolding sweep_ready_Cons by blast
  from Cons.prems(1) have d: "distinct ps" "p \<notin> set ps" "p \<notin> set kept" by simp_all
  from Cons.prems(5) have tmp: "tmp = pos_of ps" by simp
  have pos: "pos_of (p # ps) = At_node p" by (simp add: pos_of_def)
  have nxt: "ps \<noteq> [] \<longrightarrow> list_next tmp (pre @ ps) = pos_of (tl ps)" if "distinct (pre @ ps)" for pre
  proof
    assume "ps \<noteq> []"
    then obtain r rs where ps: "ps = r # rs" by (cases ps) auto
    then have "tmp = At_node r" using tmp by (simp add: pos_of_def)
    moreover from that ps have "list_next (At_node r) (pre @ r # rs) = pos_of rs"
      by (intro list_next_mid) simp
    ultimately show "list_next tmp (pre @ ps) = pos_of (tl ps)" using ps by simp
  qed
  show ?case
  proof (cases "netdev off = Some nd")
    case False
    have step: "sweep_loop nd (pos_of (p # ps)) tmp s
                  = sweep_loop nd (pos_of ps) (list_next tmp ((kept @ [p]) @ ps)) s"
      unfolding pos sweep_loop_node sweep_body_other [OF a(1) False]
      using Cons.prems(2) tmp by simp
    have d1: "distinct ((kept @ [p]) @ ps)" using Cons.prems(1) by simp
    have l1: "bpf_prog_offload_devs s = (kept @ [p]) @ ps" using Cons.prems(2) by simp
    from Cons.IH [OF d1 l1 rest Cons.prems(4) nxt [OF d1]] obtain s' where
      r: "sweep_loop nd (pos_of ps) (list_next tmp ((kept @ [p]) @ ps)) s = Some (Inr s')"
      and tr: "trace s' = trace s @ concat (map (sweep_events s nd) ps)"
      and o: "\<forall>q. offloads s' q = (if q \<in> set ps then map_option (swept nd) (offloads s q)
                                 else offloads s q)"
      and l: "bpf_prog_offload_devs s' = (kept @ [p]) @ filter (\<lambda>q. \<not> bound_to s nd q) ps"
      and f: "netdevs s' = netdevs s" "rtnl_held s'" "bpf_devs_lock s' = bpf_devs_lock s"
           "\<forall>q. aux_offload (progs s' q) = aux_offload (progs s q)"
      by blast
    have ev: "sweep_events s nd p = []" using a False by (simp add: sweep_events_def)
    have nb: "\<not> bound_to s nd p" using a False by (simp add: bound_to_def)
    have sw: "swept nd off = off" using False by (simp add: swept_def)
    have "sweep_loop nd (pos_of (p # ps)) tmp s = Some (Inr s')"
      using step r by simp
    moreover have "trace s' = trace s @ concat (map (sweep_events s nd) (p # ps))"
      using tr ev by simp
    moreover have "\<forall>q. offloads s' q = (if q \<in> set (p # ps) then map_option (swept nd) (offloads s q)
                                 else offloads s q)"
      using o a(1) sw by auto
    moreover have "bpf_prog_offload_devs s' = kept @ filter (\<lambda>q. \<not> bound_to s nd q) (p # ps)"
      unfolding l using nb by simp
    ultimately show ?thesis using f by blast
  next
    case True
    define s1 where "s1 = upd_offload p (\<lambda>off. off\<lparr>netdev := None\<rparr>)
               (list_del_init p
                 (upd_offload p (\<lambda>off. off\<lparr>dev_state := False\<rparr>)
                   (bpf_prog_free_id pg (s\<lparr>trace := trace s @ dispatch_events s pg off\<rparr>))))"
    have h: "dev_state off \<longrightarrow> ndo_bpf (netdevs s nd) \<noteq> None" using a(4) True by simp
    have body: "sweep_body nd p s = Inr s1"
      unfolding s1_def by (rule sweep_body_bound [OF a(1) True a(2,3) Cons.prems(4) h])
    have o1: "\<forall>q. offloads s1 q = (if q = p then Some (swept nd off) else offloads s q)"
      using a(1) True by (simp add: swept_def s1_def)
    have s1: "\<forall>q \<in> set ps. offloads s1 q = offloads s q"
      "\<forall>q. aux_offload (progs s1 q) = aux_offload (progs s q)"
      "netdevs s1 = netdevs s" "rtnl_held s1" "bpf_devs_lock s1 = bpf_devs_lock s"
      using d(2) Cons.prems(4) o1 by (auto simp: s1_def)
    have l1: "bpf_prog_offload_devs s1 = kept @ ps"
      using Cons.prems(2) d(2,3) by (simp add: s1_def)
    have d1: "distinct (kept @ ps)" using Cons.prems(1) by simp
    have step: "sweep_loop nd (pos_of (p # ps)) tmp s
                  = sweep_loop nd (pos_of ps) (list_next tmp (kept @ ps)) s1"
      unfolding pos sweep_loop_node body using l1 tmp by simp
    have t1: "trace s1 = trace s @ sweep_events s nd p"
      using a True by (simp add: sweep_events_def s1_def)
    have "sweep_ready nd ps s1"
      using sweep_ready_cong [OF s1(1,2,3)] rest by simp
    from Cons.IH [OF d1 l1 this s1(4) nxt [OF d1]] obtain s' where
      r: "sweep_loop nd (pos_of ps) (list_next tmp (kept @ ps)) s1 = Some (Inr s')"
      and tr: "trace s' = trace s1 @ concat (map (sweep_events s1 nd) ps)"
      and o: "\<forall>q. offloads s' q = (if q \<in> set ps then map_option (swept nd) (offloads s1 q)
                                 else offloads s1 q)"
      and l: "bpf_prog_offload_devs s' = kept @ filter (\<lambda>q. \<not> bound_to s1 nd q) ps"
      and f: "netdevs s' = netdevs s1" "rtnl_held s'" "bpf_devs_lock s' = bpf_devs_lock s1"
           "\<forall>q. aux_offload (progs s' q) = aux_offload (progs s1 q)"
      by blast
    have evs: "map (sweep_events s1 nd) ps = map (sweep_events s nd) ps"
      using s1(1,3) by (intro map_cong refl sweep_events_cong) auto
    have bt: "\<forall>q \<in> set ps. bound_to s1 nd q = bound_to s nd q"
    proof
      fix q assume "q \<in> set ps"
      with s1(1) have "offloads s1 q = offloads s q" by blast
      then show "bound_to s1 nd q = bound_to s nd q" by (rule bound_to_cong)
    qed
    have bp: "bound_to s nd p" using a(1) True by (simp add: bound_to_def)
    have fl: "filter (\<lambda>q. \<not> bound_to s1 nd q) ps = filter (\<lambda>q. \<not> bound_to s nd q) ps"
      using bt by (intro filter_cong) auto
    have "sweep_loop nd (pos_of (p # ps)) tmp s = Some (Inr s')" using step r by simp
    moreover have "trace s' = trace s @ concat (map (sweep_events s nd) (p # ps))"
      using tr t1 evs by simp
    moreover have "\<forall>q. offloads s' q = (if q \<in> set (p # ps) then map_option (swept nd) (offloads s q)
                                 else offloads s q)"
    proof
      fix q
      show "offloads s' q = (if q \<in> set (p # ps) then map_option (swept nd) (offloads s q)
                                 else offloads s q)"
      proof (cases "q = p")
        case True
        with o d(2) o1 a(1) show ?thesis by simp
      next
        case False
        with o o1 show ?thesis by simp
      qed
    qed
    moreover have "bpf_prog_offload_devs s' = kept @ filter (\<lambda>q. \<not> bound_to s nd q) (p # ps)"
      unfolding l fl using bp by simp
    moreover have "netdevs s' = netdevs s" "rtnl_held s'" "bpf_devs_lock s' = bpf_devs_lock s"
      "\<forall>q. aux_offload (progs s' q) = aux_offload (progs s q)"
      using f s1 by simp_all
    ultimately show ?thesis by blast
  qed
qed

lemma offload_sweep_spec:
  assumes "distinct (bpf_prog_offload_devs s)"
    and "sweep_ready nd (bpf_prog_offload_devs s) s" and "rtnl_held s"
  shows "\<exists>s'. offload_sweep nd s = Some (Inr s') \<and>
           trace s' = trace s @ concat (map (sweep_events s nd) (bpf_prog_offload_devs s)) \<and>
           (\<forall>p. offloads s' p = (if p \<in> set (bpf_prog_offload_devs s)
                                 then map_option (swept nd) (offloads s p) else offloads s p)) \<and>
           bpf_prog_offload_devs s' = filter (\<lambda>p. \<not> bound_to s nd p) (bpf_prog_offload_devs s) \<and>
           netdevs s' = netdevs s \<and> rtnl_held s' \<and> bpf_devs_lock s' = bpf_devs_lock s \<and>
           (\<forall>q. aux_offload (progs s' q) = aux_offload (progs s q))"
proof -
  let ?ps = "bpf_prog_offload_devs s"
  have t: "?ps \<noteq> [] \<longrightarrow> list_next (pos_of ?ps) ?ps = pos_of (tl ?ps)"
  proof
    assume "?ps \<noteq> []"
    then obtain r rs where ps: "?ps = r # rs" by (cases ?ps) auto
    with assms(1) have "list_next (At_node r) ([] @ r # rs) = pos_of rs"
      by (intro list_next_mid) simp
    with ps show "list_next (pos_of ?ps) ?ps = pos_of (tl ?ps)" by (simp add: pos_of_def)
  qed
  have "distinct ([] @ ?ps)" "?ps = [] @ ?ps" using assms(1) by simp_all
  from sweep_spec [OF this assms(2,3) t] show ?thesis
    by (simp add: offload_sweep_def Let_def)
qed

lemma length_concat_single:
  assumes "distinct ps" and "\<forall>q \<in> set ps. q \<noteq> p \<longrightarrow> f q = []"
  shows "length (concat (map f ps)) = (if p \<in> set ps then length (f p) else 0)"
  using assms by (induction ps) auto

lemma sweep_ready_D:
  assumes "sweep_ready nd ps s" and "p \<in> set ps"
  shows "\<exists>off pg. offloads s p = Some off \<and> prog off = Some pg \<and>
           aux_offload (progs s pg) = Some p \<and>
           (netdev off = Some nd \<and> dev_state off \<longrightarrow> ndo_bpf (netdevs s nd) \<noteq> None)"
proof -
  from assms have c: "case offloads s p of
          None \<Rightarrow> False
        | Some off \<Rightarrow>
            (case prog off of
               None \<Rightarrow> False
             | Some pg \<Rightarrow>
                 aux_offload (progs s pg) = Some p \<and>
                 (netdev off = Some nd \<and> dev_state off \<longrightarrow> ndo_bpf (netdevs s nd) \<noteq> None))"
    unfolding sweep_ready_def by blast
  then obtain off where o: "offloads s p = Some off" by (cases "offloads s p") simp_all
  with c obtain pg where g: "prog off = Some pg" by (cases "prog off") simp_all
  with c o show ?thesis by simp
qed

lemma count_own:
  assumes "offloads s p = Some off" and "prog off = Some pg"
    and "netdev off = Some nd \<and> dev_state off \<longrightarrow> ndo_bpf (netdevs s nd) \<noteq> None"
  shows "length (filter (is_destroy_of nd pg) (sweep_events s nd p))
           = (if netdev off = Some nd \<and> dev_state off then 1 else 0)"
  using assms
  by (auto simp: sweep_events_def dispatch_events_def split: option.splits)

lemma count_other:
  assumes "offloads s q = Some off" and "prog off = Some pg'" and "pg' \<noteq> pg"
  shows "filter (is_destroy_of nd pg) (sweep_events s nd q) = []"
  using assms
  by (auto simp: sweep_events_def dispatch_events_def split: option.splits)

lemma sweep_dispatch_count:
  assumes "distinct ps" and "sweep_ready nd ps s" and "p \<in> set ps"
    and "offloads s p = Some off" and "prog off = Some pg"
  shows "length (filter (is_destroy_of nd pg) (concat (map (sweep_events s nd) ps)))
           = (if netdev off = Some nd \<and> dev_state off then 1 else 0)"
proof -
  let ?f = "\<lambda>q. filter (is_destroy_of nd pg) (sweep_events s nd q)"
  from sweep_ready_D [OF assms(2,3)] assms(4,5) have
    p: "aux_offload (progs s pg) = Some p"
       "netdev off = Some nd \<and> dev_state off \<longrightarrow> ndo_bpf (netdevs s nd) \<noteq> None"
    by auto
  have other: "\<forall>q \<in> set ps. q \<noteq> p \<longrightarrow> ?f q = []"
  proof (intro ballI impI)
    fix q assume q: "q \<in> set ps" "q \<noteq> p"
    from sweep_ready_D [OF assms(2) q(1)] obtain off' pg' where
      o: "offloads s q = Some off'" "prog off' = Some pg'" "aux_offload (progs s pg') = Some q"
      by blast
    from o(3) p(1) q(2) have "pg' \<noteq> pg" by auto
    from count_other [OF o(1,2) this] show "?f q = []" .
  qed
  have "filter (is_destroy_of nd pg) (concat (map (sweep_events s nd) ps)) = concat (map ?f ps)"
    by (simp add: filter_concat comp_def)
  then have "length (filter (is_destroy_of nd pg) (concat (map (sweep_events s nd) ps)))
      = length (?f p)"
    using length_concat_single [OF assms(1) other] assms(3) by simp
  with count_own [OF assms(4,5) p(2)] show ?thesis by simp
qed

lemma sweep_events_ndo:
  assumes "e \<in> set (sweep_events s nd p)" and "is_ndo e"
  shows "\<exists>pg r. e = EvNdo nd BPF_OFFLOAD_DESTROY pg r"
proof -
  from assms(1) obtain off pg where
    o: "offloads s p = Some off" "prog off = Some pg" "netdev off = Some nd"
    and e: "e \<in> set (dispatch_events s pg off @ [EvFreeId pg, EvListDel p])"
    by (cases "offloads s p"; cases "prog (the (offloads s p))"; cases "netdev (the (offloads s p)) = Some nd")
       (simp_all add: sweep_events_def)
  from e assms(2) have "e \<in> set (dispatch_events s pg off)" by auto
  with o(3) assms(2) show ?thesis
    by (cases "dev_state off"; cases "ndo_bpf (netdevs s nd)")
       (auto simp: dispatch_events_def split: if_splits)
qed

lemma notification_other:
  assumes "\<not> (ev = NETDEV_UNREGISTER \<and> reg_state (netdevs s nd) = NETREG_UNREGISTERING)"
  shows "\<exists>s'. bpf_offload_notification ev nd s = Some (Inr (NOTIFY_OK, s')) \<and>
           offloads s' = offloads s \<and> bpf_prog_offload_devs s' = bpf_prog_offload_devs s \<and>
           progs s' = progs s \<and> filter is_ndo (emitted s s') = []"
  using assms
  by (auto simp: bpf_offload_notification_def Let_def emitted_def ASSERT_RTNL_def)

lemma notification_sweep:
  assumes "offload_inv s" and "sweep_ready nd (bpf_prog_offload_devs s) s"
    and "rtnl_held s" and "bpf_devs_lock s = Unlocked"
    and "reg_state (netdevs s nd) = NETREG_UNREGISTERING"
  shows "\<exists>s'. bpf_offload_notification NETDEV_UNREGISTER nd s = Some (Inr (NOTIFY_OK, s')) \<and>
           emitted s s' = [EvRegStateCheck nd, EvDownWrite]
                            @ concat (map (sweep_events s nd) (bpf_prog_offload_devs s))
                            @ [EvUpWrite] \<and>
           (\<forall>p. offloads s' p = map_option (swept nd) (offloads s p)) \<and>
           bpf_prog_offload_devs s'
             = filter (\<lambda>p. \<not> bound_to s nd p) (bpf_prog_offload_devs s)"
proof -
  define s3 where "s3 = emit EvDownWrite ((emit (EvRegStateCheck nd) s)\<lparr>bpf_devs_lock := WriteLocked\<rparr>)"
  let ?ps = "bpf_prog_offload_devs s"
  have f3: "offloads s3 = offloads s" "bpf_prog_offload_devs s3 = ?ps" "netdevs s3 = netdevs s"
    "rtnl_held s3" "\<forall>q. aux_offload (progs s3 q) = aux_offload (progs s q)"
    "trace s3 = trace s @ [EvRegStateCheck nd, EvDownWrite]"
    using assms(3) by (simp_all add: s3_def)
  have n: "bpf_offload_notification NETDEV_UNREGISTER nd s
             = map_option (\<lambda>r. bind_f r (\<lambda>s4. Inr (NOTIFY_OK, up_write s4))) (offload_sweep nd s3)"
    using assms(3,4,5)
    by (simp add: bpf_offload_notification_def Let_def down_write_def s3_def)
  from assms(1) have d: "distinct (bpf_prog_offload_devs s3)" by (simp add: offload_inv_def f3(2))
  have "sweep_ready nd (bpf_prog_offload_devs s3) s3"
    using sweep_ready_cong [of ?ps s3 s nd] f3 assms(2) by simp
  from offload_sweep_spec [OF d this f3(4)] obtain s4 where
    r: "offload_sweep nd s3 = Some (Inr s4)"
    and tr: "trace s4 = trace s3 @ concat (map (sweep_events s3 nd) ?ps)"
    and o: "\<forall>p. offloads s4 p = (if p \<in> set ?ps then map_option (swept nd) (offloads s3 p)
                                 else offloads s3 p)"
    and l: "bpf_prog_offload_devs s4 = filter (\<lambda>p. \<not> bound_to s3 nd p) ?ps"
    unfolding f3(2) by blast
  have evs: "map (sweep_events s3 nd) ?ps = map (sweep_events s nd) ?ps"
    using f3(1,3) by (intro map_cong refl sweep_events_cong) auto
  have bt: "\<And>p. bound_to s3 nd p = bound_to s nd p"
    using f3(1) by (intro bound_to_cong) simp
  have "bpf_offload_notification NETDEV_UNREGISTER nd s = Some (Inr (NOTIFY_OK, up_write s4))"
    using n r by simp
  moreover have "emitted s (up_write s4) = [EvRegStateCheck nd, EvDownWrite]
                            @ concat (map (sweep_events s nd) ?ps) @ [EvUpWrite]"
    by (rule emitted_append) (simp add: tr evs f3(6))
  moreover have "\<forall>p. offloads (up_write s4) p = map_option (swept nd) (offloads s p)"
  proof
    fix p
    show "offloads (up_write s4) p = map_option (swept nd) (offloads s p)"
    proof (cases "p \<in> set ?ps")
      case True
      with o f3(1) show ?thesis by simp
    next
      case False
      with assms(1) have "\<forall>off. offloads s p = Some off \<longrightarrow> netdev off = None"
        by (auto simp: offload_inv_def)
      then have "map_option (swept nd) (offloads s p) = offloads s p"
        by (cases "offloads s p") (simp_all add: swept_def)
      with o f3(1) False show ?thesis by simp
    qed
  qed
  moreover have "bpf_prog_offload_devs (up_write s4)
             = filter (\<lambda>p. \<not> bound_to s nd p) ?ps"
    using l bt by simp
  ultimately show ?thesis by blast
qed

lemma owner_inv_cong:
  assumes "offloads s' = offloads s" and "bpf_prog_offload_devs s' = bpf_prog_offload_devs s"
    and "\<forall>q. aux_offload (progs s' q) = aux_offload (progs s q)" and "netdevs s' = netdevs s"
  shows "owner_inv s' = owner_inv s"
proof -
  have "sweep_ready nd (bpf_prog_offload_devs s) s' = sweep_ready nd (bpf_prog_offload_devs s) s" for nd
    by (rule sweep_ready_cong) (simp_all add: assms)
  then show ?thesis by (simp add: owner_inv_def assms(2))
qed

lemma owner_inv_empty: "bpf_prog_offload_devs s = [] \<Longrightarrow> owner_inv s"
  by (simp add: owner_inv_def sweep_ready_def)

lemma owner_inv_D:
  assumes "owner_inv s" and "p \<in> set (bpf_prog_offload_devs s)"
  shows "\<exists>off pg. offloads s p = Some off \<and> prog off = Some pg \<and>
           aux_offload (progs s pg) = Some p \<and>
           (\<forall>d. netdev off = Some d \<and> dev_state off \<longrightarrow> ndo_bpf (netdevs s d) \<noteq> None)"
proof -
  from assms have r: "\<And>nd. sweep_ready nd (bpf_prog_offload_devs s) s" by (simp add: owner_inv_def)
  from sweep_ready_D [OF r assms(2)] obtain off pg where
    a: "offloads s p = Some off" "prog off = Some pg" "aux_offload (progs s pg) = Some p"
    by blast
  have "\<forall>d. netdev off = Some d \<and> dev_state off \<longrightarrow> ndo_bpf (netdevs s d) \<noteq> None"
  proof (intro allI impI)
    fix d assume d: "netdev off = Some d \<and> dev_state off"
    from sweep_ready_D [OF r [of d] assms(2)] a(1) d show "ndo_bpf (netdevs s d) \<noteq> None" by auto
  qed
  with a show ?thesis by blast
qed

lemma owner_inv_I:
  assumes "\<And>p. p \<in> set (bpf_prog_offload_devs s) \<Longrightarrow>
             \<exists>off pg. offloads s p = Some off \<and> prog off = Some pg \<and>
               aux_offload (progs s pg) = Some p \<and>
               (\<forall>d. netdev off = Some d \<and> dev_state off \<longrightarrow> ndo_bpf (netdevs s d) \<noteq> None)"
  shows "owner_inv s"
  unfolding owner_inv_def sweep_ready_def
proof (intro allI ballI)
  fix nd p assume "p \<in> set (bpf_prog_offload_devs s)"
  from assms [OF this] obtain off pg where
    "offloads s p = Some off" "prog off = Some pg" "aux_offload (progs s pg) = Some p"
    "\<forall>d. netdev off = Some d \<and> dev_state off \<longrightarrow> ndo_bpf (netdevs s d) \<noteq> None"
    by blast
  then show "case offloads s p of None \<Rightarrow> False
        | Some off \<Rightarrow>
            (case prog off of None \<Rightarrow> False
             | Some pg \<Rightarrow> aux_offload (progs s pg) = Some p \<and>
                 (netdev off = Some nd \<and> dev_state off \<longrightarrow> ndo_bpf (netdevs s nd) \<noteq> None))"
    by simp
qed

lemma owner_uu_destroy:
  assumes "owner_inv s" and "uu_bpf_prog_offload_destroy pg s = Inr s'"
  shows "owner_inv s'"
proof (rule owner_inv_I)
  fix q assume q: "q \<in> set (bpf_prog_offload_devs s')"
  from uu_destroy_Inr [OF assms(2)] obtain p off where
    u: "offloads s' = (offloads s)(p \<mapsto> off\<lparr>dev_state := False, netdev := None\<rparr>)"
       "bpf_prog_offload_devs s' = removeAll p (bpf_prog_offload_devs s)"
       "netdevs s' = netdevs s" "\<forall>q. aux_offload (progs s' q) = aux_offload (progs s q)"
    by blast
  from q u(2) have "q \<in> set (bpf_prog_offload_devs s)" "q \<noteq> p" by auto
  from owner_inv_D [OF assms(1) this(1)] this(2) u
  show "\<exists>off pg. offloads s' q = Some off \<and> prog off = Some pg \<and>
               aux_offload (progs s' pg) = Some q \<and>
               (\<forall>d. netdev off = Some d \<and> dev_state off \<longrightarrow> ndo_bpf (netdevs s' d) \<noteq> None)"
    by simp
qed

lemma init_Inr:
  assumes "bpf_prog_offload_init c (Some p) pg attr s = Inr (r, s')" and "offloads s p = None"
  shows "netdevs s' = netdevs s \<and>
         (offloads s' = offloads s \<and> bpf_prog_offload_devs s' = bpf_prog_offload_devs s \<and>
          progs s' = progs s \<or>
          (\<exists>d. offloads s' = (offloads s)(p \<mapsto> \<lparr>prog = Some pg, netdev = Some d, dev_ops = None, dev_state = False\<rparr>) \<and>
             bpf_prog_offload_devs s' = bpf_prog_offload_devs s @ [p] \<and>
             progs s' = (progs s)(pg := (progs s pg)\<lparr>aux_offload := Some p\<rparr>)))"
  using assms
  by (auto simp: bpf_prog_offload_init_def Let_def err_maybe_put_def kzalloc_def
      dev_get_by_index_def lock_eq_Inr kfree_eq_Inr load_offload_eq_Inr dev_put_def
      bind_f_eq_Inr zero_offload_def bpf_dev_offload_check_def fun_eq_iff
      split: if_splits option.split_asm prod.split_asm)

lemma init_owner:
  assumes "owner_inv s" and "offloads s p = None" and "aux_offload (progs s pg) = None"
    and "bpf_prog_offload_init c (Some p) pg attr s = Inr (r, s')"
  shows "owner_inv s'"
proof -
  from init_Inr [OF assms(4,2)] have n: "netdevs s' = netdevs s"
    and c: "offloads s' = offloads s \<and> bpf_prog_offload_devs s' = bpf_prog_offload_devs s \<and>
          progs s' = progs s \<or>
          (\<exists>d. offloads s' = (offloads s)(p \<mapsto> \<lparr>prog = Some pg, netdev = Some d, dev_ops = None, dev_state = False\<rparr>) \<and>
             bpf_prog_offload_devs s' = bpf_prog_offload_devs s @ [p] \<and>
             progs s' = (progs s)(pg := (progs s pg)\<lparr>aux_offload := Some p\<rparr>))"
    by blast+
  from c show ?thesis
  proof
    assume "offloads s' = offloads s \<and> bpf_prog_offload_devs s' = bpf_prog_offload_devs s \<and>
          progs s' = progs s"
    with n assms(1) show ?thesis using owner_inv_cong [of s' s] by simp
  next
    assume "\<exists>d. offloads s' = (offloads s)(p \<mapsto> \<lparr>prog = Some pg, netdev = Some d, dev_ops = None, dev_state = False\<rparr>) \<and>
             bpf_prog_offload_devs s' = bpf_prog_offload_devs s @ [p] \<and>
             progs s' = (progs s)(pg := (progs s pg)\<lparr>aux_offload := Some p\<rparr>)"
    then obtain d where
      u: "offloads s' = (offloads s)(p \<mapsto> \<lparr>prog = Some pg, netdev = Some d, dev_ops = None, dev_state = False\<rparr>)"
         "bpf_prog_offload_devs s' = bpf_prog_offload_devs s @ [p]"
         "progs s' = (progs s)(pg := (progs s pg)\<lparr>aux_offload := Some p\<rparr>)"
      by blast
    show ?thesis
    proof (rule owner_inv_I)
      fix q assume "q \<in> set (bpf_prog_offload_devs s')"
      with u(2) have "q = p \<or> q \<in> set (bpf_prog_offload_devs s)" by auto
      then show "\<exists>off pg. offloads s' q = Some off \<and> prog off = Some pg \<and>
               aux_offload (progs s' pg) = Some q \<and>
               (\<forall>d. netdev off = Some d \<and> dev_state off \<longrightarrow> ndo_bpf (netdevs s' d) \<noteq> None)"
      proof
        assume "q = p"
        with u show ?thesis by simp
      next
        assume "q \<in> set (bpf_prog_offload_devs s)"
        from owner_inv_D [OF assms(1) this] obtain off pg' where
          o: "offloads s q = Some off" "prog off = Some pg'" "aux_offload (progs s pg') = Some q"
             "\<forall>d. netdev off = Some d \<and> dev_state off \<longrightarrow> ndo_bpf (netdevs s d) \<noteq> None"
          by blast
        from o(1) assms(2) have "q \<noteq> p" by auto
        moreover from o(3) assms(3) have "pg' \<noteq> pg" by auto
        ultimately show ?thesis using o u n by simp
      qed
    qed
  qed
qed

lemma prep_Inr:
  assumes "bpf_prog_offload_verifier_prep pg s = Inr (r, s')"
  shows "bpf_prog_offload_devs s' = bpf_prog_offload_devs s \<and> progs s' = progs s \<and>
         netdevs s' = netdevs s \<and>
         (offloads s' = offloads s \<or>
          (\<exists>p off d h ops. offloads s p = Some off \<and> netdev off = Some d \<and>
             ndo_bpf (netdevs s d) = Some h \<and>
             offloads s' = (offloads s)(p \<mapsto> off\<lparr>dev_ops := ops, dev_state := True\<rparr>)))"
proof (cases "r = 0")
  case True
  with assms have "bpf_prog_offload_verifier_prep pg s = Inr (0, s')" by simp
  from prep_ok [OF this] obtain p off d h where
    "offloads s p = Some off" "netdev off = Some d" "ndo_bpf (netdevs s d) = Some h"
    "offloads s' = (offloads s)(p \<mapsto> off\<lparr>dev_ops := snd (h BPF_OFFLOAD_VERIFIER_PREP pg), dev_state := True\<rparr>)"
    "bpf_prog_offload_devs s' = bpf_prog_offload_devs s" "progs s' = progs s" "netdevs s' = netdevs s"
    by blast
  then show ?thesis by blast
next
  case False
  with assms show ?thesis
    by (auto simp: prep_unfold Let_def split: if_splits option.split_asm)
qed

lemma prep_owner:
  assumes "owner_inv s" and "bpf_prog_offload_verifier_prep pg s = Inr (r, s')"
  shows "owner_inv s'"
proof -
  from prep_Inr [OF assms(2)] have
    f: "bpf_prog_offload_devs s' = bpf_prog_offload_devs s" "progs s' = progs s"
       "netdevs s' = netdevs s"
    and c: "offloads s' = offloads s \<or>
          (\<exists>p off d h ops. offloads s p = Some off \<and> netdev off = Some d \<and>
             ndo_bpf (netdevs s d) = Some h \<and>
             offloads s' = (offloads s)(p \<mapsto> off\<lparr>dev_ops := ops, dev_state := True\<rparr>))"
    by blast+
  from c show ?thesis
  proof
    assume "offloads s' = offloads s"
    with f assms(1) show ?thesis using owner_inv_cong [of s' s] by simp
  next
    assume "\<exists>p off d h ops. offloads s p = Some off \<and> netdev off = Some d \<and>
             ndo_bpf (netdevs s d) = Some h \<and>
             offloads s' = (offloads s)(p \<mapsto> off\<lparr>dev_ops := ops, dev_state := True\<rparr>)"
    then obtain p off d h ops where
      u: "offloads s p = Some off" "netdev off = Some d" "ndo_bpf (netdevs s d) = Some h"
         "offloads s' = (offloads s)(p \<mapsto> off\<lparr>dev_ops := ops, dev_state := True\<rparr>)"
      by blast
    show ?thesis
    proof (rule owner_inv_I)
      fix q assume "q \<in> set (bpf_prog_offload_devs s')"
      with f(1) have "q \<in> set (bpf_prog_offload_devs s)" by simp
      from owner_inv_D [OF assms(1) this] obtain off' pg' where
        o: "offloads s q = Some off'" "prog off' = Some pg'" "aux_offload (progs s pg') = Some q"
           "\<forall>d. netdev off' = Some d \<and> dev_state off' \<longrightarrow> ndo_bpf (netdevs s d) \<noteq> None"
        by blast
      show "\<exists>off pg. offloads s' q = Some off \<and> prog off = Some pg \<and>
               aux_offload (progs s' pg) = Some q \<and>
               (\<forall>d. netdev off = Some d \<and> dev_state off \<longrightarrow> ndo_bpf (netdevs s' d) \<noteq> None)"
      proof (cases "q = p")
        case True
        with o u f show ?thesis by simp
      next
        case False
        with o u f show ?thesis by simp
      qed
    qed
  qed
qed

lemma verify_insn_owner_frame:
  assumes "bpf_prog_offload_verify_insn pg i j s = Inr (r, s')"
  shows "offloads s' = offloads s \<and> bpf_prog_offload_devs s' = bpf_prog_offload_devs s \<and>
         progs s' = progs s \<and> netdevs s' = netdevs s"
  using assms
  by (auto simp: bpf_prog_offload_verify_insn_def bind_f_eq_Inr lock_eq_Inr load_offload_eq_Inr
      split: option.split_asm)

lemma compile_owner_frame:
  assumes "bpf_prog_offload_compile pg s = Inr (r, s')"
  shows "offloads s' = offloads s \<and> bpf_prog_offload_devs s' = bpf_prog_offload_devs s \<and>
         (\<forall>q. aux_offload (progs s' q) = aux_offload (progs s q)) \<and> netdevs s' = netdevs s"
  using assms
  by (auto simp: bpf_prog_offload_compile_def bpf_prog_offload_translate_def bind_f_eq_Inr lock_eq_Inr
       dest!: ndo_frame)

lemma info_fill_owner_frame:
  assumes "bpf_prog_offload_info_fill fs info pg s = Inr (r, s')"
  shows "offloads s' = offloads s \<and> bpf_prog_offload_devs s' = bpf_prog_offload_devs s \<and>
         progs s' = progs s \<and> netdevs s' = netdevs s"
  using assms
  by (auto simp: bpf_prog_offload_info_fill_def ns_get_path_cb_def bpf_prog_offload_info_fill_ns_def
      bind_f_eq_Inr lock_eq_Inr load_offload_eq_Inr Let_def
      split: option.split_asm sum.split_asm if_splits prod.split_asm)

lemma destroy_owner:
  assumes "owner_inv s" and "bpf_prog_offload_destroy pg s = Inr s'"
  shows "owner_inv s'"
proof -
  let ?s2 = "emit EvDownWrite (emit EvRtnlLock (s\<lparr>rtnl_held := True\<rparr>)\<lparr>bpf_devs_lock := WriteLocked\<rparr>)"
  from assms(2) obtain s3 where
    d: "uu_bpf_prog_offload_destroy pg ?s2 = Inr s3"
    and k: "kfree (aux_offload (progs s pg)) (rtnl_unlock (up_write s3)) = Inr s'"
    unfolding destroy_unfold by blast
  have "owner_inv ?s2 = owner_inv s" by (rule owner_inv_cong) simp_all
  with assms(1) have "owner_inv ?s2" by simp
  from owner_uu_destroy [OF this d] have i3: "owner_inv s3" .
  from uu_destroy_Inr [OF d] obtain p off where
    u: "aux_offload (progs s pg) = Some p"
       "bpf_prog_offload_devs s3 = removeAll p (bpf_prog_offload_devs s)"
    by auto
  from k u(1) have
    f: "bpf_prog_offload_devs s' = bpf_prog_offload_devs s3" "progs s' = progs s3"
       "netdevs s' = netdevs s3" "\<forall>q. q \<noteq> p \<longrightarrow> offloads s' q = offloads s3 q"
    by (auto simp: kfree_def split: option.split_asm if_splits)
  show ?thesis
  proof (rule owner_inv_I)
    fix q assume "q \<in> set (bpf_prog_offload_devs s')"
    with f(1) have q: "q \<in> set (bpf_prog_offload_devs s3)" by simp
    with u(2) have "q \<noteq> p" by auto
    with owner_inv_D [OF i3 q] f
    show "\<exists>off pg. offloads s' q = Some off \<and> prog off = Some pg \<and>
               aux_offload (progs s' pg) = Some q \<and>
               (\<forall>d. netdev off = Some d \<and> dev_state off \<longrightarrow> ndo_bpf (netdevs s' d) \<noteq> None)"
      by simp
  qed
qed

lemma notification_owner:
  assumes "owner_inv s" and "bpf_offload_notification ev nd s = Some (Inr (r, s'))"
  shows "owner_inv s'"
proof (cases "ev = NETDEV_UNREGISTER \<and> reg_state (netdevs s nd) = NETREG_UNREGISTERING")
  case False
  with assms(2) have "s' = emit (EvRegStateCheck nd) (ASSERT_RTNL s) \<or> s' = ASSERT_RTNL s"
    by (auto simp: notification_unfold split: if_splits)
  moreover have "owner_inv (emit (EvRegStateCheck nd) (ASSERT_RTNL s)) = owner_inv s"
    by (rule owner_inv_cong) simp_all
  moreover have "owner_inv (ASSERT_RTNL s) = owner_inv s"
    by (rule owner_inv_cong) simp_all
  ultimately show ?thesis using assms(1) by auto
next
  case True
  let ?s3 = "emit EvDownWrite (emit (EvRegStateCheck nd) (ASSERT_RTNL s)\<lparr>bpf_devs_lock := WriteLocked\<rparr>)"
  from True assms(2) obtain s4 where
    sw: "offload_sweep nd ?s3 = Some (Inr s4)" and s': "s' = up_write s4"
    by (auto simp: notification_unfold)
  have "owner_inv ?s3 = owner_inv s" by (rule owner_inv_cong) simp_all
  with assms(1) have i3: "owner_inv ?s3" by simp
  have "owner_inv s4"
    using sw unfolding offload_sweep_def Let_def
    by (rule sweep_loop_inv) (rule i3, rule owner_uu_destroy)
  moreover have "owner_inv (up_write s4) = owner_inv s4" by (rule owner_inv_cong) simp_all
  ultimately show ?thesis using s' by simp
qed

lemma run_op_owner_inv:
  assumes "owner_inv s" and "alloc_fresh op s" and "prog_fresh op s" and "run_op fs op s = Inr s'"
  shows "owner_inv s'"
proof (cases op)
  case (Op_init c a pg attr)
  show ?thesis
  proof (cases a)
    case None
    with Op_init assms show ?thesis
      by (auto simp: bind_f_eq_Inr dest: init_inv_None)
  next
    case (Some p)
    with Op_init assms show ?thesis
      by (auto simp: bind_f_eq_Inr dest: init_owner)
  qed
next
  case (Op_verifier_prep pg)
  with assms show ?thesis by (auto simp: bind_f_eq_Inr dest: prep_owner)
next
  case (Op_verify_insn pg i j)
  with assms(4) have "offloads s' = offloads s \<and> bpf_prog_offload_devs s' = bpf_prog_offload_devs s \<and>
         progs s' = progs s \<and> netdevs s' = netdevs s"
    by (auto simp: bind_f_eq_Inr dest!: verify_insn_owner_frame)
  then have "owner_inv s' = owner_inv s" by (intro owner_inv_cong) simp_all
  with assms(1) show ?thesis by simp
next
  case (Op_compile pg)
  with assms(4) have "offloads s' = offloads s \<and> bpf_prog_offload_devs s' = bpf_prog_offload_devs s \<and>
         (\<forall>q. aux_offload (progs s' q) = aux_offload (progs s q)) \<and> netdevs s' = netdevs s"
    by (auto simp: bind_f_eq_Inr dest!: compile_owner_frame)
  then have "owner_inv s' = owner_inv s" by (intro owner_inv_cong) simp_all
  with assms(1) show ?thesis by simp
next
  case (Op_destroy pg)
  with assms show ?thesis by (auto dest: destroy_owner)
next
  case (Op_info_fill info pg)
  with assms(4) have "offloads s' = offloads s \<and> bpf_prog_offload_devs s' = bpf_prog_offload_devs s \<and>
         progs s' = progs s \<and> netdevs s' = netdevs s"
    by (auto simp: bind_f_eq_Inr dest!: info_fill_owner_frame)
  then have "owner_inv s' = owner_inv s" by (intro owner_inv_cong) simp_all
  with assms(1) show ?thesis by simp
next
  case (Op_notification ev nd)
  with assms(4) have "run_op fs (Op_notification ev nd) s = Inr s'" by simp
  then obtain r where "bpf_offload_notification ev nd s = Some (Inr (r, s'))"
    unfolding run_op_notification by blast
  with assms(1) show ?thesis by (rule notification_owner)
qed

text \<open>
  C4, as the code has it. The condition under which the loop of the notifier does what the
  claim says is that every descriptor on the list is the one its program points to, and
  that an active one has a driver (\<open>owner_inv\<close>): the loop compares \<open>offload->netdev\<close> of
  the node it stands on, but what it tears down is \<open>offload->prog->aux->offload\<close>. The
  condition holds while the list is empty, and every operation that returns keeps it,
  as long as \<open>bpf_prog_offload_init\<close> is given an unused address for the descriptor and a
  program that has no descriptor yet.

  Under that condition and the registry invariant, with the topology lock held and the
  registry lock free, the notifier returns on \<open>NETDEV_UNREGISTER\<close> for a device \<open>nd\<close> that
  is unregistering, and every descriptor bound to \<open>nd\<close>, and no other, has lost its device
  and its active flag and has left the list; the driver got \<open>DESTROY\<close> once for each such
  descriptor that was active, not at all for one that was bound but never prepared, and
  no other command. On any other event, and on \<open>NETDEV_UNREGISTER\<close> for a device that is
  not unregistering (a namespace move), in any state, the notifier returns, no descriptor
  and no list entry changes and the driver gets nothing.
\<close>

theorem device_removal_sweep:
  "(offload_inv s \<and> owner_inv s \<and> rtnl_held s \<and> bpf_devs_lock s = Unlocked \<and>
    ev = NETDEV_UNREGISTER \<and> reg_state (netdevs s nd) = NETREG_UNREGISTERING \<longrightarrow>
      (\<exists>s'. bpf_offload_notification ev nd s = Some (Inr (NOTIFY_OK, s')) \<and>
         (\<forall>p. offloads s' p = map_option (swept nd) (offloads s p)) \<and>
         bpf_prog_offload_devs s'
           = filter (\<lambda>p. \<not> bound_to s nd p) (bpf_prog_offload_devs s) \<and>
         (\<forall>e \<in> set (emitted s s'). is_ndo e \<longrightarrow>
            (\<exists>pg r. e = EvNdo nd BPF_OFFLOAD_DESTROY pg r)) \<and>
         (\<forall>p \<in> set (bpf_prog_offload_devs s). \<forall>off pg.
            offloads s p = Some off \<and> prog off = Some pg \<longrightarrow>
            length (filter (is_destroy_of nd pg) (emitted s s'))
              = (if netdev off = Some nd \<and> dev_state off then 1 else 0)))) \<and>
   (\<not> (ev = NETDEV_UNREGISTER \<and> reg_state (netdevs s nd) = NETREG_UNREGISTERING) \<longrightarrow>
      (\<exists>s'. bpf_offload_notification ev nd s = Some (Inr (NOTIFY_OK, s')) \<and>
         offloads s' = offloads s \<and>
         bpf_prog_offload_devs s' = bpf_prog_offload_devs s \<and>
         filter is_ndo (emitted s s') = [])) \<and>
   (bpf_prog_offload_devs u = [] \<longrightarrow> owner_inv u) \<and>
   (owner_inv t \<and> alloc_fresh op t \<and> prog_fresh op t \<and> run_op fs op t = Inr t' \<longrightarrow>
      owner_inv t')"
proof (intro conjI impI)
  assume h: "offload_inv s \<and> owner_inv s \<and> rtnl_held s \<and> bpf_devs_lock s = Unlocked \<and>
    ev = NETDEV_UNREGISTER \<and> reg_state (netdevs s nd) = NETREG_UNREGISTERING"
  let ?ps = "bpf_prog_offload_devs s"
  from h have rd: "sweep_ready nd ?ps s" by (simp add: owner_inv_def)
  from h have a: "offload_inv s" "rtnl_held s" "bpf_devs_lock s = Unlocked"
    "reg_state (netdevs s nd) = NETREG_UNREGISTERING" and ev: "ev = NETDEV_UNREGISTER"
    by simp_all
  from ev notification_sweep [OF a(1) rd a(2,3,4)] obtain s' where
    r: "bpf_offload_notification ev nd s = Some (Inr (NOTIFY_OK, s'))"
    and em: "emitted s s' = [EvRegStateCheck nd, EvDownWrite]
                            @ concat (map (sweep_events s nd) ?ps) @ [EvUpWrite]"
    and o: "\<forall>p. offloads s' p = map_option (swept nd) (offloads s p)"
    and l: "bpf_prog_offload_devs s' = filter (\<lambda>p. \<not> bound_to s nd p) ?ps"
    by blast
  from a(1) have d: "distinct ?ps" by (simp add: offload_inv_def)
  have ndo: "\<forall>e \<in> set (emitted s s'). is_ndo e \<longrightarrow>
                  (\<exists>pg r. e = EvNdo nd BPF_OFFLOAD_DESTROY pg r)"
  proof (intro ballI impI)
    fix e assume e: "e \<in> set (emitted s s')" "is_ndo e"
    then obtain p where "e \<in> set (sweep_events s nd p)"
      unfolding em by auto
    from sweep_events_ndo [OF this e(2)]
    show "\<exists>pg r. e = EvNdo nd BPF_OFFLOAD_DESTROY pg r" .
  qed
  have cnt: "\<forall>p \<in> set ?ps. \<forall>off pg.
                  offloads s p = Some off \<and> prog off = Some pg \<longrightarrow>
                  length (filter (is_destroy_of nd pg) (emitted s s'))
                    = (if netdev off = Some nd \<and> dev_state off then 1 else 0)"
  proof (intro ballI allI impI)
    fix p off pg
    assume p: "p \<in> set ?ps" and a: "offloads s p = Some off \<and> prog off = Some pg"
    from sweep_dispatch_count [OF d rd p] a
    have "length (filter (is_destroy_of nd pg) (concat (map (sweep_events s nd) ?ps)))
           = (if netdev off = Some nd \<and> dev_state off then 1 else 0)"
      by blast
    then show "length (filter (is_destroy_of nd pg) (emitted s s'))
                    = (if netdev off = Some nd \<and> dev_state off then 1 else 0)"
      unfolding em by simp
  qed
  from r o l ndo cnt
  show "\<exists>s'. bpf_offload_notification ev nd s = Some (Inr (NOTIFY_OK, s')) \<and>
               (\<forall>p. offloads s' p = map_option (swept nd) (offloads s p)) \<and>
               bpf_prog_offload_devs s'
                 = filter (\<lambda>p. \<not> bound_to s nd p) (bpf_prog_offload_devs s) \<and>
               (\<forall>e \<in> set (emitted s s'). is_ndo e \<longrightarrow>
                  (\<exists>pg r. e = EvNdo nd BPF_OFFLOAD_DESTROY pg r)) \<and>
               (\<forall>p \<in> set (bpf_prog_offload_devs s). \<forall>off pg.
                  offloads s p = Some off \<and> prog off = Some pg \<longrightarrow>
                  length (filter (is_destroy_of nd pg) (emitted s s'))
                    = (if netdev off = Some nd \<and> dev_state off then 1 else 0))"
    by blast
next
  assume "\<not> (ev = NETDEV_UNREGISTER \<and> reg_state (netdevs s nd) = NETREG_UNREGISTERING)"
  from notification_other [OF this]
  show "\<exists>s'. bpf_offload_notification ev nd s = Some (Inr (NOTIFY_OK, s')) \<and>
               offloads s' = offloads s \<and>
               bpf_prog_offload_devs s' = bpf_prog_offload_devs s \<and>
               filter is_ndo (emitted s s') = []"
    by blast
next
  assume "bpf_prog_offload_devs u = []"
  then show "owner_inv u" by (rule owner_inv_empty)
next
  assume "owner_inv t \<and> alloc_fresh op t \<and> prog_fresh op t \<and> run_op fs op t = Inr t'"
  then show "owner_inv t'" using run_op_owner_inv [of t op fs t'] by blast
qed

lemma example_dev_by_index:
  "dev_by_index bound_state = dev_by_index boot_state"
  "dev_by_index prepped_state = dev_by_index boot_state"
  by (simp_all add: prepped_state_def bound_state_def the_state_def prep_unfold
      bpf_prog_offload_init_def boot_state_def attr3_def
      kzalloc_def dev_get_by_index_def bpf_dev_offload_check_def lock_eq_Inr down_write_def
      dev_put_def Let_def EOPNOTSUPP_def EINVAL_def zero_offload_def nic_ndo_def)

lemma init_two:
  "bpf_prog_offload_init True (Some 6) 2 attr4 prepped_state = Inr (0, two_bound_state)"
proof -
  have "\<exists>s'. bpf_prog_offload_init True (Some 6) 2 attr4 prepped_state = Inr (0, s')"
    by (simp add: bpf_prog_offload_init_def attr4_def example_dev_by_index prepped_state_fields
      boot_state_def kzalloc_def dev_get_by_index_def bpf_dev_offload_check_def down_write_def
      dev_put_def Let_def)
  then show ?thesis by (auto simp: two_bound_state_def the_state_def)
qed

lemma unregistering_state_fields:
  "offloads unregistering_state =
     (\<lambda>_. None)(5 \<mapsto> \<lparr>prog = Some 0, netdev = Some 7,
                          dev_ops = Some (Dev_ops (\<lambda>pg i j. i + 7)), dev_state = True\<rparr>,
                6 \<mapsto> \<lparr>prog = Some 2, netdev = Some 8, dev_ops = None, dev_state = False\<rparr>)"
  "bpf_prog_offload_devs unregistering_state = [5, 6]"
  "rtnl_held unregistering_state"
  "bpf_devs_lock unregistering_state = Unlocked"
  "aux_offload (progs unregistering_state 0) = Some 5"
  "aux_offload (progs unregistering_state 2) = Some 6"
  "reg_state (netdevs unregistering_state 7) = NETREG_UNREGISTERING"
  "reg_state (netdevs unregistering_state 8) = NETREG_REGISTERED"
  "ndo_bpf (netdevs unregistering_state 7) = Some nic_ndo"
  using init_ok [OF init_two]
  by (auto simp: unregistering_state_def prepped_state_fields boot_state_def attr4_def
      example_dev_by_index)

lemma unregistering_state_netdevs:
  "ndo_bpf (netdevs unregistering_state d) = Some nic_ndo"
  using init_ok [OF init_two]
  by (auto simp: unregistering_state_def prepped_state_fields boot_state_def)

lemma unregistering_ready:
  "offload_inv unregistering_state"
  "sweep_ready 7 (bpf_prog_offload_devs unregistering_state) unregistering_state"
  "owner_inv unregistering_state"
  by (auto simp: offload_inv_def owner_inv_def sweep_ready_def unregistering_state_fields
      unregistering_state_netdevs split: if_splits)

lemma run_init_boot:
  "run_op fs0 (Op_init True (Some 5) 0 attr3) boot_state = Inr bound_state"
  by (simp add: init_boot)

lemma notify_swept:
  "bpf_offload_notification NETDEV_UNREGISTER 7 unregistering_state = Some (Inr (NOTIFY_OK, swept_state))"
proof -
  from notification_sweep [OF unregistering_ready(1,2) unregistering_state_fields(3,4,7)]
  obtain s' where "bpf_offload_notification NETDEV_UNREGISTER 7 unregistering_state
      = Some (Inr (NOTIFY_OK, s'))" by blast
  then show ?thesis by (simp add: swept_state_def the_state_def)
qed

lemma notify_moved:
  "bpf_offload_notification NETDEV_UNREGISTER 8 unregistering_state = Some (Inr (NOTIFY_OK, moved_state))"
proof -
  have "\<not> (NETDEV_UNREGISTER = NETDEV_UNREGISTER \<and>
           reg_state (netdevs unregistering_state 8) = NETREG_UNREGISTERING)"
    by (simp add: unregistering_state_fields)
  from notification_other [OF this]
  obtain s' where "bpf_offload_notification NETDEV_UNREGISTER 8 unregistering_state
      = Some (Inr (NOTIFY_OK, s'))" by blast
  then show ?thesis by (simp add: moved_state_def the_state_def)
qed

theorem device_removal_sweep_witness:
  "(offload_inv unregistering_state \<and> owner_inv unregistering_state \<and>
    rtnl_held unregistering_state \<and> bpf_devs_lock unregistering_state = Unlocked \<and>
    reg_state (netdevs unregistering_state 7) = NETREG_UNREGISTERING) \<and>
   bpf_offload_notification NETDEV_UNREGISTER 7 unregistering_state
     = Some (Inr (NOTIFY_OK, swept_state)) \<and>
   map_option netdev (offloads swept_state 5) = Some None \<and>
   map_option netdev (offloads swept_state 6) = Some (Some 8) \<and>
   bpf_prog_offload_devs swept_state = [6] \<and>
   length (filter (is_destroy_of 7 0) (emitted unregistering_state swept_state)) = 1 \<and>
   length (filter (is_destroy_of 7 2) (emitted unregistering_state swept_state)) = 0 \<and>
   reg_state (netdevs unregistering_state 8) \<noteq> NETREG_UNREGISTERING \<and>
   bpf_offload_notification NETDEV_UNREGISTER 8 unregistering_state
     = Some (Inr (NOTIFY_OK, moved_state)) \<and>
   offloads moved_state = offloads unregistering_state \<and>
   bpf_prog_offload_devs moved_state = [5, 6] \<and>
   filter is_ndo (emitted unregistering_state moved_state) = [] \<and>
   bpf_prog_offload_devs boot_state = [] \<and> owner_inv boot_state \<and>
   (alloc_fresh (Op_init True (Some 5) 0 attr3) boot_state \<and>
    prog_fresh (Op_init True (Some 5) 0 attr3) boot_state \<and>
    run_op fs0 (Op_init True (Some 5) 0 attr3) boot_state = Inr bound_state) \<and>
   owner_inv bound_state"
proof -
  note f = unregistering_state_fields
  note a = device_removal_sweep [where s = unregistering_state and nd = 7
      and ev = NETDEV_UNREGISTER and u = boot_state and t = boot_state
      and op = "Op_init True (Some 5) 0 attr3" and fs = fs0 and t' = bound_state]
  note b = device_removal_sweep [where s = unregistering_state and nd = 8
      and ev = NETDEV_UNREGISTER]
  have h: "offload_inv unregistering_state \<and> owner_inv unregistering_state \<and>
    rtnl_held unregistering_state \<and> bpf_devs_lock unregistering_state = Unlocked \<and>
    NETDEV_UNREGISTER = NETDEV_UNREGISTER \<and>
    reg_state (netdevs unregistering_state 7) = NETREG_UNREGISTERING"
    using unregistering_ready f by simp
  have e: "bpf_prog_offload_devs boot_state = []" by (simp add: boot_state_def)
  have i: "alloc_fresh (Op_init True (Some 5) 0 attr3) boot_state \<and>
    prog_fresh (Op_init True (Some 5) 0 attr3) boot_state \<and>
    run_op fs0 (Op_init True (Some 5) 0 attr3) boot_state = Inr bound_state"
    using run_init_boot by (simp add: boot_state_def)
  from a e have ob: "owner_inv boot_state" by blast
  from a ob i have obd: "owner_inv bound_state" by blast
  from a h have "\<exists>s'. bpf_offload_notification NETDEV_UNREGISTER 7 unregistering_state
                        = Some (Inr (NOTIFY_OK, s')) \<and>
         (\<forall>p. offloads s' p = map_option (swept 7) (offloads unregistering_state p)) \<and>
         bpf_prog_offload_devs s'
           = filter (\<lambda>p. \<not> bound_to unregistering_state 7 p) (bpf_prog_offload_devs unregistering_state) \<and>
         (\<forall>e \<in> set (emitted unregistering_state s'). is_ndo e \<longrightarrow>
            (\<exists>pg r. e = EvNdo 7 BPF_OFFLOAD_DESTROY pg r)) \<and>
         (\<forall>p \<in> set (bpf_prog_offload_devs unregistering_state). \<forall>off pg.
            offloads unregistering_state p = Some off \<and> prog off = Some pg \<longrightarrow>
            length (filter (is_destroy_of 7 pg) (emitted unregistering_state s'))
              = (if netdev off = Some 7 \<and> dev_state off then 1 else 0))"
    by blast
  with notify_swept have
    a1: "\<forall>p. offloads swept_state p = map_option (swept 7) (offloads unregistering_state p)"
    and a2: "bpf_prog_offload_devs swept_state
       = filter (\<lambda>p. \<not> bound_to unregistering_state 7 p) (bpf_prog_offload_devs unregistering_state)"
    and a3: "\<forall>p \<in> set (bpf_prog_offload_devs unregistering_state). \<forall>off pg.
                  offloads unregistering_state p = Some off \<and> prog off = Some pg \<longrightarrow>
                  length (filter (is_destroy_of 7 pg) (emitted unregistering_state swept_state))
                    = (if netdev off = Some 7 \<and> dev_state off then 1 else 0)"
    by auto
  from b f(8) have "\<exists>s'. bpf_offload_notification NETDEV_UNREGISTER 8 unregistering_state
                        = Some (Inr (NOTIFY_OK, s')) \<and>
         offloads s' = offloads unregistering_state \<and>
         bpf_prog_offload_devs s' = bpf_prog_offload_devs unregistering_state \<and>
         filter is_ndo (emitted unregistering_state s') = []"
    by simp
  with notify_moved have
    b1: "offloads moved_state = offloads unregistering_state"
      "bpf_prog_offload_devs moved_state = bpf_prog_offload_devs unregistering_state"
      "filter is_ndo (emitted unregistering_state moved_state) = []"
    by auto
  have c5: "length (filter (is_destroy_of 7 0) (emitted unregistering_state swept_state)) = 1"
    using a3 [rule_format, of 5 _ 0] by (simp add: f)
  have c6: "length (filter (is_destroy_of 7 2) (emitted unregistering_state swept_state)) = 0"
    using a3 [rule_format, of 6 _ 2] by (simp add: f)
  have o: "map_option netdev (offloads swept_state 5) = Some None"
    "map_option netdev (offloads swept_state 6) = Some (Some 8)"
    "bpf_prog_offload_devs swept_state = [6]"
    using a1 a2 by (simp_all add: f swept_def bound_to_def)
  from unregistering_ready f notify_swept notify_moved b1 c5 c6 o e ob i obd show ?thesis by simp
qed

lemma unregister_bound: "unregister_netdevice 7 bound_state = Inr removed_unprepped_state"
proof -
  have "\<exists>s'. unregister_netdevice 7 bound_state = Inr s'"
    by (simp add: unregister_unfold bpf_offload_notification_def
      offload_sweep_def sweep_loop_node sweep_body_def pos_of_def
      bound_state_fields boot_state_def uu_bpf_prog_offload_destroy_def
      load_offload_def down_write_def Let_def)
  then show ?thesis by (auto simp: removed_unprepped_state_def the_state_def)
qed

theorem sweep_unprepped_counterexample:
  "unregister_netdevice 7 bound_state = Inr removed_unprepped_state \<and>
   map_option netdev (offloads bound_state 5) = Some (Some 7) \<and>
   map_option netdev (offloads removed_unprepped_state 5) = Some None \<and>
   filter is_ndo (emitted bound_state removed_unprepped_state) = []"
proof (intro conjI)
  show "unregister_netdevice 7 bound_state = Inr removed_unprepped_state"
    by (rule unregister_bound)
  show "map_option netdev (offloads bound_state 5) = Some (Some 7)"
    by (simp add: bound_state_fields)
  show "map_option netdev (offloads removed_unprepped_state 5) = Some None"
    by (simp add: removed_unprepped_state_def the_state_def unregister_unfold
        bpf_offload_notification_def bound_state_fields boot_state_def
        offload_sweep_def sweep_loop_node sweep_body_def pos_of_def
        uu_bpf_prog_offload_destroy_def load_offload_def down_write_def Let_def)
  show "filter is_ndo (emitted bound_state removed_unprepped_state) = []"
    by (simp add: emitted_def removed_unprepped_state_def the_state_def unregister_unfold
        bpf_offload_notification_def bound_state_fields boot_state_def
        offload_sweep_def sweep_loop_node sweep_body_def pos_of_def
        uu_bpf_prog_offload_destroy_def load_offload_def down_write_def Let_def)
qed

lemma two_bound_state_fields:
  "offloads two_bound_state =
     (\<lambda>_. None)(5 \<mapsto> \<lparr>prog = Some 0, netdev = Some 7,
                          dev_ops = Some (Dev_ops (\<lambda>pg i j. i + 7)), dev_state = True\<rparr>,
                6 \<mapsto> \<lparr>prog = Some 2, netdev = Some 8, dev_ops = None, dev_state = False\<rparr>)"
  "bpf_prog_offload_devs two_bound_state = [5, 6]"
  "rtnl_held two_bound_state = False"
  "bpf_devs_lock two_bound_state = Unlocked"
  "netdevs two_bound_state = netdevs boot_state"
  using init_ok [OF init_two]
  by (auto simp: prepped_state_fields boot_state_def attr4_def example_dev_by_index)

lemma two_bound_dev_by_index:
  "dev_by_index two_bound_state = dev_by_index boot_state"
  by (simp add: two_bound_state_def the_state_def bpf_prog_offload_init_def attr4_def
      example_dev_by_index prepped_state_fields boot_state_def kzalloc_def dev_get_by_index_def
      bpf_dev_offload_check_def down_write_def dev_put_def Let_def)

lemma init_three:
  "bpf_prog_offload_init True (Some 9) 0 attr3 two_bound_state = Inr (0, rebound_state)"
proof -
  have "\<exists>s'. bpf_prog_offload_init True (Some 9) 0 attr3 two_bound_state = Inr (0, s')"
    by (simp add: bpf_prog_offload_init_def attr3_def two_bound_state_fields
      two_bound_dev_by_index boot_state_def kzalloc_def dev_get_by_index_def bpf_dev_offload_check_def down_write_def
      dev_put_def Let_def)
  then show ?thesis by (auto simp: rebound_state_def the_state_def)
qed

lemma orphan_state_fields:
  "offloads orphan_state =
     (\<lambda>_. None)(5 \<mapsto> \<lparr>prog = Some 0, netdev = Some 7,
                          dev_ops = Some (Dev_ops (\<lambda>pg i j. i + 7)), dev_state = True\<rparr>,
                6 \<mapsto> \<lparr>prog = Some 2, netdev = Some 8, dev_ops = None, dev_state = False\<rparr>,
                9 \<mapsto> \<lparr>prog = Some 0, netdev = Some 7, dev_ops = None, dev_state = False\<rparr>)"
  "bpf_prog_offload_devs orphan_state = [5, 6, 9]"
  "rtnl_held orphan_state"
  "bpf_devs_lock orphan_state = Unlocked"
  "aux_offload (progs orphan_state 0) = Some 9"
  "reg_state (netdevs orphan_state 7) = NETREG_UNREGISTERING"
  using init_ok [OF init_three]
  by (auto simp: orphan_state_def two_bound_state_fields two_bound_dev_by_index
      boot_state_def attr3_def)

text \<open>
  Outside that condition the loop still tears down what the program points to. With
  program 0 bound twice to device 7 (descriptors 5 and 9, program 2 on descriptor 6
  between them), the notifier for device 7 finds descriptor 5 bound to the device, tears
  down descriptor 9 through \<open>offload->prog\<close>, and returns with descriptor 5 on the list
  and bound to device 7.
\<close>

lemma sweep_orphan:
  "map_option (map_sum id (\<lambda>(r, t). (r, bpf_prog_offload_devs t,
       map_option netdev (offloads t 5), map_option netdev (offloads t 9))))
     (bpf_offload_notification NETDEV_UNREGISTER 7 orphan_state)
   = Some (Inr (NOTIFY_OK, [5, 6], Some (Some 7), Some None))"
  by (simp add: bpf_offload_notification_def offload_sweep_def sweep_loop_node sweep_body_def
      pos_of_def orphan_state_fields uu_bpf_prog_offload_destroy_def
      load_offload_def down_write_def Let_def)

section \<open>Lock order\<close>

lemma lock_step_other: "\<not> is_lock e \<Longrightarrow> lock_step l e = l"
  by (cases e; cases l) simp_all

lemma lock_order_ok_filter: "lock_order_ok d (filter is_lock evs) = lock_order_ok d evs"
proof (induction evs arbitrary: d)
  case Nil
  show ?case by simp
next
  case (Cons e evs)
  show ?case
  proof (cases "is_lock e")
    case True
    with Cons show ?thesis by simp
  next
    case False
    then have "e \<noteq> EvRtnlLock" by auto
    with False Cons show ?thesis by (simp add: lock_step_other)
  qed
qed

lemma ndo_trace:
  assumes "uu_bpf_offload_ndo pg cmd s = Inr (r, s')"
  shows "\<exists>evs. trace s' = trace s @ evs \<and> filter is_lock evs = []"
  using assms
  by (auto simp: ndo_unfold ASSERT_RTNL_def split: option.split_asm)

lemma uu_destroy_trace:
  assumes "uu_bpf_prog_offload_destroy pg s = Inr s'"
  shows "\<exists>evs. trace s' = trace s @ evs \<and> filter is_lock evs = []"
proof -
  from uu_destroy_Inr [OF assms] obtain p off where
    a: "aux_offload (progs s pg) = Some p" "offloads s p = Some off" by blast
  show ?thesis
  proof (cases "dev_state off")
    case False
    with a assms have "trace s' = trace s @ [EvFreeId pg, EvListDel p]"
      by (auto simp: uu_bpf_prog_offload_destroy_def load_offload_def Let_def)
    then show ?thesis by simp
  next
    case True
    with a assms have "\<exists>r s2. uu_bpf_offload_ndo pg BPF_OFFLOAD_DESTROY s = Inr (r, s2) \<and>
        trace s' = trace s2 @ (if fst r \<noteq> 0 then [EvWarn ''WARN_ON''] else [])
                     @ [EvFreeId pg, EvListDel p]"
      by (auto simp: uu_bpf_prog_offload_destroy_def load_offload_def Let_def bind_f_eq_Inr)
    then obtain r s2 where n: "uu_bpf_offload_ndo pg BPF_OFFLOAD_DESTROY s = Inr (r, s2)"
      and tr: "trace s' = trace s2 @ (if fst r \<noteq> 0 then [EvWarn ''WARN_ON''] else [])
                     @ [EvFreeId pg, EvListDel p]"
      by blast
    from ndo_trace [OF n] obtain e1 where
      e1: "trace s2 = trace s @ e1" "filter is_lock e1 = []" by blast
    let ?evs = "e1 @ (if fst r \<noteq> 0 then [EvWarn ''WARN_ON''] else []) @ [EvFreeId pg, EvListDel p]"
    from tr e1 have "trace s' = trace s @ ?evs \<and> filter is_lock ?evs = []" by simp
    then show ?thesis by blast
  qed
qed

lemma sweep_trace:
  assumes "offload_sweep nd s = Some (Inr s')"
  shows "\<exists>evs. trace s' = trace s @ evs \<and> filter is_lock evs = []"
proof -
  let ?I = "\<lambda>t. \<exists>evs. trace t = trace s @ evs \<and> filter is_lock evs = []"
  have i0: "?I s" by simp
  have st: "?I t1" if i: "?I t" and d: "uu_bpf_prog_offload_destroy pg t = Inr t1" for pg t t1
  proof -
    from i obtain e0 where e0: "trace t = trace s @ e0" "filter is_lock e0 = []" by blast
    from uu_destroy_trace [OF d] obtain e1 where
      e1: "trace t1 = trace t @ e1" "filter is_lock e1 = []" by blast
    from e0 e1 have "trace t1 = trace s @ (e0 @ e1) \<and> filter is_lock (e0 @ e1) = []" by simp
    then show ?thesis by blast
  qed
  from assms have l: "sweep_loop nd (list_next At_head (bpf_prog_offload_devs s))
      (list_next (list_next At_head (bpf_prog_offload_devs s)) (bpf_prog_offload_devs s)) s
      = Some (Inr s')"
    by (simp add: offload_sweep_def Let_def)
  show ?thesis
    by (rule sweep_loop_inv [where I = ?I, OF l i0]) (rule st, assumption+)
qed

lemma init_locks:
  assumes "bpf_prog_offload_init c alloc pg attr s = Inr (r, s')"
  shows "filter is_lock (emitted s s') \<in> {[], [EvDownWrite, EvUpWrite]}"
  using assms
  by (auto simp: bpf_prog_offload_init_def Let_def err_maybe_put_def kzalloc_def
      dev_get_by_index_def lock_eq_Inr kfree_eq_Inr load_offload_eq_Inr dev_put_def
      bind_f_eq_Inr emitted_def
      split: if_splits option.split_asm prod.split_asm)

lemma prep_locks:
  assumes "bpf_prog_offload_verifier_prep pg s = Inr (r, s')"
  shows "filter is_lock (emitted s s') = [EvRtnlLock, EvRtnlUnlock]"
  using assms
  by (auto simp: prep_unfold Let_def emitted_def split: if_splits option.split_asm)

lemma verify_insn_locks:
  assumes "bpf_prog_offload_verify_insn pg i j s = Inr (r, s')"
  shows "filter is_lock (emitted s s') = [EvDownRead, EvUpRead]"
  using assms
  by (auto simp: verify_insn_unfold emitted_def split: if_splits option.split_asm)

lemma compile_locks:
  assumes "bpf_prog_offload_compile pg s = Inr (r, s')"
  shows "filter is_lock (emitted s s') = [EvRtnlLock, EvRtnlUnlock]"
  using assms
  by (auto simp: bpf_prog_offload_compile_def bpf_prog_offload_translate_def rtnl_lock_def
      ndo_unfold ASSERT_RTNL_def emitted_def case_prod_beta split: if_splits option.split_asm)

lemma destroy_locks:
  assumes "bpf_prog_offload_destroy pg s = Inr s'"
  shows "filter is_lock (emitted s s') = [EvRtnlLock, EvDownWrite, EvUpWrite, EvRtnlUnlock]"
proof -
  from destroy_ok [OF assms] obtain p off where
    tr: "trace s' = trace s @ [EvRtnlLock, EvDownWrite] @ dispatch_events s pg off
                        @ [EvFreeId pg, EvListDel p, EvUpWrite, EvRtnlUnlock, EvKfree p]"
    by blast
  have "filter is_lock (dispatch_events s pg off) = []"
    by (auto simp: filter_empty_conv dest!: dispatch_events_kinds)
  with emitted_append [OF tr] show ?thesis by simp
qed

lemma info_fill_locks:
  assumes "bpf_prog_offload_info_fill fs info pg s = Inr (r, s')"
  shows "filter is_lock (emitted s s') = [EvRtnlLock, EvDownRead, EvUpRead, EvRtnlUnlock]"
  using assms
  by (auto simp: bpf_prog_offload_info_fill_def ns_get_path_cb_def info_fill_ns_unfold Let_def
      emitted_def bind_f_eq_Inr
      split: if_splits option.split_asm sum.split_asm prod.split_asm)

lemma notification_locks:
  assumes "bpf_offload_notification ev nd s = Some (Inr (r, s'))"
  shows "filter is_lock (emitted s s') \<in> {[], [EvDownWrite, EvUpWrite]}"
proof (cases "ev = NETDEV_UNREGISTER \<and> reg_state (netdevs s nd) = NETREG_UNREGISTERING")
  case False
  with assms show ?thesis
    by (auto simp: notification_unfold emitted_def ASSERT_RTNL_def split: if_splits)
next
  case True
  let ?s3 = "emit EvDownWrite (emit (EvRegStateCheck nd) (ASSERT_RTNL s)\<lparr>bpf_devs_lock := WriteLocked\<rparr>)"
  from True assms obtain s4 where
    sw: "offload_sweep nd ?s3 = Some (Inr s4)" and s': "s' = up_write s4"
    unfolding notification_unfold by auto
  from sweep_trace [OF sw] obtain evs where
    e: "trace s4 = trace ?s3 @ evs" "filter is_lock evs = []" by blast
  have "\<exists>w. trace ?s3 = trace s @ w @ [EvRegStateCheck nd, EvDownWrite] \<and> filter is_lock w = []"
    by (auto simp: ASSERT_RTNL_def)
  then obtain w where w: "trace ?s3 = trace s @ w @ [EvRegStateCheck nd, EvDownWrite]"
    "filter is_lock w = []" by blast
  from e w s' have "trace s' = trace s @ (w @ [EvRegStateCheck nd, EvDownWrite] @ evs @ [EvUpWrite])"
    by simp
  from emitted_append [OF this] e(2) w(2) show ?thesis by simp
qed

lemma run_op_locks:
  assumes "run_op fs op s = Inr s'"
  shows "filter is_lock (emitted s s') \<in>
           {[], [EvDownWrite, EvUpWrite], [EvDownRead, EvUpRead], [EvRtnlLock, EvRtnlUnlock],
            [EvRtnlLock, EvDownWrite, EvUpWrite, EvRtnlUnlock],
            [EvRtnlLock, EvDownRead, EvUpRead, EvRtnlUnlock]}"
proof (cases op)
  case (Op_init c a pg attr)
  with assms obtain r where "bpf_prog_offload_init c a pg attr s = Inr (r, s')"
    by (auto simp: bind_f_eq_Inr)
  from init_locks [OF this] show ?thesis by auto
next
  case (Op_verifier_prep pg)
  with assms obtain r where "bpf_prog_offload_verifier_prep pg s = Inr (r, s')"
    by (auto simp: bind_f_eq_Inr)
  from prep_locks [OF this] show ?thesis by simp
next
  case (Op_verify_insn pg i j)
  with assms obtain r where "bpf_prog_offload_verify_insn pg i j s = Inr (r, s')"
    by (auto simp: bind_f_eq_Inr)
  from verify_insn_locks [OF this] show ?thesis by simp
next
  case (Op_compile pg)
  with assms obtain r where "bpf_prog_offload_compile pg s = Inr (r, s')"
    by (auto simp: bind_f_eq_Inr)
  from compile_locks [OF this] show ?thesis by simp
next
  case (Op_destroy pg)
  with assms have "bpf_prog_offload_destroy pg s = Inr s'" by simp
  from destroy_locks [OF this] show ?thesis by simp
next
  case (Op_info_fill info pg)
  with assms obtain r where "bpf_prog_offload_info_fill fs info pg s = Inr (r, s')"
    by (auto simp: bind_f_eq_Inr)
  from info_fill_locks [OF this] show ?thesis by simp
next
  case (Op_notification ev nd)
  with assms have "run_op fs (Op_notification ev nd) s = Inr s'" by simp
  then obtain r where "bpf_offload_notification ev nd s = Some (Inr (r, s'))"
    unfolding run_op_notification by blast
  from notification_locks [OF this] show ?thesis by auto
qed

lemma init_no_rtnl:
  assumes "bpf_prog_offload_init c alloc pg attr t = Inr (r, t')"
  shows "EvRtnlLock \<notin> set (emitted t t')"
proof
  assume m: "EvRtnlLock \<in> set (emitted t t')"
  have f: "\<And>ys. filter is_lock (emitted t t') = ys \<Longrightarrow> EvRtnlLock \<in> set ys"
    using m by auto
  from init_locks [OF assms] consider "filter is_lock (emitted t t') = []"
    | "filter is_lock (emitted t t') = [EvDownWrite, EvUpWrite]" by auto
  then show False
  proof cases
    case 1
    from f [OF 1] show False by simp
  next
    case 2
    from f [OF 2] show False by simp
  qed
qed

lemma init_check_locks:
  assumes "bpf_prog_offload_init c alloc pg attr t = Inr (r, t')"
    and "\<exists>e \<in> set (emitted t t'). is_check e"
  shows "locks_after (locks_of t) (before_check (emitted t t')) = (rtnl_held t, WriteLocked)"
  using assms
  by (auto simp: bpf_prog_offload_init_def Let_def err_maybe_put_def kzalloc_def
      dev_get_by_index_def lock_eq_Inr kfree_eq_Inr load_offload_eq_Inr dev_put_def
      bind_f_eq_Inr emitted_def before_check_def locks_after_def locks_of_def
      split: if_splits option.split_asm prod.split_asm)

text \<open>
  C10, as the code has it. No operation takes the topology lock while it holds the
  registry lock: an operation that returns has taken the registry lock alone
  (\<open>bpf_prog_offload_init\<close>, \<open>bpf_prog_offload_verify_insn\<close>, the notifier, which its caller
  runs under the topology lock), the topology lock alone (\<open>bpf_prog_offload_verifier_prep\<close>,
  \<open>bpf_prog_offload_compile\<close>), or the topology lock and then the registry lock
  (\<open>bpf_prog_offload_destroy\<close>, \<open>bpf_prog_offload_info_fill\<close>). \<open>bpf_prog_offload_init\<close>
  never takes the topology lock: when it reads the device's \<open>reg_state\<close> it holds the
  registry write lock, and the topology lock only if its caller held it already.
\<close>

theorem lock_order:
  "(bpf_devs_lock s = Unlocked \<and> run_op fs op s = Inr s' \<longrightarrow>
      lock_order_ok (bpf_devs_lock s) (emitted s s') \<and>
      filter is_lock (emitted s s') \<in>
        {[], [EvDownWrite, EvUpWrite], [EvDownRead, EvUpRead], [EvRtnlLock, EvRtnlUnlock],
         [EvRtnlLock, EvDownWrite, EvUpWrite, EvRtnlUnlock],
         [EvRtnlLock, EvDownRead, EvUpRead, EvRtnlUnlock]}) \<and>
   (bpf_prog_offload_init c alloc pg attr t = Inr (r, t') \<longrightarrow>
      EvRtnlLock \<notin> set (emitted t t') \<and>
      ((\<exists>e \<in> set (emitted t t'). is_check e) \<longrightarrow>
         locks_after (locks_of t) (before_check (emitted t t')) = (rtnl_held t, WriteLocked)))"
proof (intro conjI impI)
  assume a: "bpf_devs_lock s = Unlocked \<and> run_op fs op s = Inr s'"
  then have l: "filter is_lock (emitted s s') \<in>
        {[], [EvDownWrite, EvUpWrite], [EvDownRead, EvUpRead], [EvRtnlLock, EvRtnlUnlock],
         [EvRtnlLock, EvDownWrite, EvUpWrite, EvRtnlUnlock],
         [EvRtnlLock, EvDownRead, EvUpRead, EvRtnlUnlock]}"
    using run_op_locks by blast
  then show "filter is_lock (emitted s s') \<in>
        {[], [EvDownWrite, EvUpWrite], [EvDownRead, EvUpRead], [EvRtnlLock, EvRtnlUnlock],
         [EvRtnlLock, EvDownWrite, EvUpWrite, EvRtnlUnlock],
         [EvRtnlLock, EvDownRead, EvUpRead, EvRtnlUnlock]}" .
  from l have "lock_order_ok Unlocked (filter is_lock (emitted s s'))" by auto
  with a show "lock_order_ok (bpf_devs_lock s) (emitted s s')"
    by (simp add: lock_order_ok_filter)
next
  assume "bpf_prog_offload_init c alloc pg attr t = Inr (r, t')"
  then show "EvRtnlLock \<notin> set (emitted t t')" by (rule init_no_rtnl)
next
  assume "bpf_prog_offload_init c alloc pg attr t = Inr (r, t')"
    and "\<exists>e \<in> set (emitted t t'). is_check e"
  then show "locks_after (locks_of t) (before_check (emitted t t')) = (rtnl_held t, WriteLocked)"
    by (rule init_check_locks)
qed

lemma emitted_init_boot:
  "emitted boot_state bound_state =
     [EvKzalloc 5, EvDevHold 7, EvDownWrite, EvRegStateCheck 7, EvListAdd 5, EvDevPut 7, EvUpWrite]"
  using init_ok [OF init_boot]
  by (auto simp: boot_state_def attr3_def intro!: emitted_append)

theorem init_check_without_rtnl_counterexample:
  "bpf_prog_offload_init True (Some 5) 0 attr3 boot_state = Inr (0, bound_state) \<and>
   locks_of boot_state = (False, Unlocked) \<and>
   locks_after (locks_of boot_state) (before_check (emitted boot_state bound_state))
     = (False, WriteLocked) \<and>
   EvRtnlLock \<notin> set (emitted boot_state bound_state)"
proof -
  have l: "locks_of boot_state = (False, Unlocked)"
    by (simp add: locks_of_def boot_state_def)
  show ?thesis
    by (simp add: init_boot emitted_init_boot before_check_def locks_after_def l)
qed

theorem lock_order_witness:
  "(bpf_devs_lock prepped_state = Unlocked \<and>
    run_op fs0 (Op_destroy 0) prepped_state = Inr destroyed_state) \<and>
   lock_order_ok Unlocked (emitted prepped_state destroyed_state) \<and>
   filter is_lock (emitted prepped_state destroyed_state)
     = [EvRtnlLock, EvDownWrite, EvUpWrite, EvRtnlUnlock] \<and>
   bpf_prog_offload_init True (Some 5) 0 attr3 boot_state = Inr (0, bound_state) \<and>
   EvRtnlLock \<notin> set (emitted boot_state bound_state) \<and>
   is_check (EvRegStateCheck 7) \<and> EvRegStateCheck 7 \<in> set (emitted boot_state bound_state) \<and>
   locks_after (locks_of boot_state) (before_check (emitted boot_state bound_state))
     = (rtnl_held boot_state, WriteLocked)"
proof -
  note w = lock_order [where s = prepped_state and fs = fs0 and op = "Op_destroy 0"
      and s' = destroyed_state and c = True and alloc = "Some 5" and pg = 0 and attr = attr3
      and t = boot_state and r = 0 and t' = bound_state]
  have a: "bpf_devs_lock prepped_state = Unlocked \<and>
    run_op fs0 (Op_destroy 0) prepped_state = Inr destroyed_state"
    by (simp add: prepped_state_fields destroy_prepped)
  have c: "is_check (EvRegStateCheck 7)"
    "EvRegStateCheck 7 \<in> set (emitted boot_state bound_state)"
    by (simp_all add: emitted_init_boot)
  then have c': "\<exists>e \<in> set (emitted boot_state bound_state). is_check e" by blast
  from w a init_boot c' have
    "lock_order_ok (bpf_devs_lock prepped_state) (emitted prepped_state destroyed_state)"
    "EvRtnlLock \<notin> set (emitted boot_state bound_state)"
    "locks_after (locks_of boot_state) (before_check (emitted boot_state bound_state))
       = (rtnl_held boot_state, WriteLocked)"
    by blast+
  with a c init_boot show ?thesis
    by (simp add: emitted_destroy_prepped prepped_state_fields)
qed

end
